theory Spec2Isabelle
  imports Complex_Main "HOL-Library.AList"
begin

section \<open>Data model of spoticamper.py\<close>

text \<open>
  The script keeps one JSON document in \<^verbatim>\<open>state.json\<close>. It is a Python dict with the
  two entries \<^verbatim>\<open>albums\<close> and \<^verbatim>\<open>bandcamp_url_to_album_key\<close>, both dicts themselves.
  A Python dict keeps its entries in insertion order, has no duplicate keys, and an
  assignment \<^verbatim>\<open>d[k] = v\<close> overwrites the entry of an existing key where it stands or
  appends a new entry at the end: that is \<open>AList.update\<close> on an association list,
  with \<open>map_of\<close> as the lookup.

  Every exception the script can raise is a value of \<open>error\<close>. The script catches
  none of them (apart from the missing state file), so a raised exception ends the
  run before \<^verbatim>\<open>dump_state\<close>. A function that mutates the state returns, when it
  raises, the exception together with the state as it is in memory at that moment.
\<close>

datatype error =
    KeyError
  | IndexError
  | ZeroDivisionError
  | RuntimeError
  | ValueError
  | RequestError

text \<open>
  The album dict built at lines 112-122. The field \<^verbatim>\<open>id\<close> is called \<open>id_album\<close>
  here, since \<open>id\<close> is the identity function of HOL.
\<close>

record album =
  key :: string
  id_album :: string
  name :: string
  artists :: "string list"
  purchased :: bool
  bandcamp_search_term :: string
  bandcamp_url_found :: bool
  bandcamp_url_searched :: bool
  bandcamp_url :: string

record state =
  albums :: "(string \<times> album) list"
  bandcamp_url_to_album_key :: "(string \<times> string) list"

text \<open>
  One item of the playlist answer, as far as the script reads it:
  \<^verbatim>\<open>track["track"]["album"]["id"]\<close>, \<^verbatim>\<open>track["track"]["album"]["name"]\<close> and the
  \<^verbatim>\<open>name\<close> of every entry of \<^verbatim>\<open>track["track"]["artists"]\<close>.
\<close>

record track =
  album_id :: string
  album_name :: string
  artist_names :: "string list"

type_synonym 'a outcome = "(error \<times> state) + (state \<times> 'a)"

text \<open>The state in memory when a function returns or raises.\<close>

fun final_state :: "'a outcome \<Rightarrow> state" where
  "final_state (Inl (e, s)) = s"
| "final_state (Inr (s, x)) = s"

text \<open>\<^verbatim>\<open>load_state\<close> when \<^verbatim>\<open>state.json\<close> does not exist (line 65).\<close>

definition new_state :: state where
  "new_state = \<lparr>albums = [], bandcamp_url_to_album_key = []\<rparr>"

section \<open>What the script gets from outside\<close>

text \<open>
  The script reads four environment variables, calls \<^verbatim>\<open>urllib.parse.urlparse\<close> and
  talks to four remote endpoints. All of that is a parameter of the model, the
  \<open>runtime\<close>:
  \<^item> \<open>environ\<close> is \<^verbatim>\<open>os.environ\<close>;
  \<^item> \<open>urlparse\<close> is the library's URL parser, which may raise \<^verbatim>\<open>ValueError\<close>;
  \<^item> \<open>token_endpoint\<close> answers the token request of lines 32-36 for the credentials
    \<^verbatim>\<open>id:secret\<close> (their base64 form is what is sent), up to the subscript
    \<^verbatim>\<open>["access_token"]\<close>;
  \<^item> \<open>playlist_endpoint\<close> answers the playlist request of lines 39-43 for a token and a
    playlist id;
  \<^item> \<open>search_page\<close> answers the search request of line 20 for the text of the
    \<^verbatim>\<open>q\<close> parameter: the \<^verbatim>\<open>.searchresult\<close> elements of the page in document order,
    each given by the \<^verbatim>\<open>href\<close> values of its \<^verbatim>\<open>a[href]\<close> descendants. Its first
    argument is the number of searches sent before this one in the same pass, so that
    the service may answer the same text differently each time;
  \<^item> \<open>purchases_page\<close> answers the request of lines 46-49 for a user name and an
    identity cookie: the \<^verbatim>\<open>.item-link\<close> elements of the page, each given by its
    \<^verbatim>\<open>href\<close> attribute when it has one.

  A request that fails, or an answer of another shape, is an \<open>error\<close>.
  The decorators of lines 16-17 delay a call; they do not change what it returns.
\<close>

record parsed_url =
  scheme :: string
  netloc :: string
  path :: string
  params :: string
  query :: string
  fragment :: string

record runtime =
  environ :: "string \<Rightarrow> string option"
  urlparse :: "string \<Rightarrow> error + parsed_url"
  token_endpoint :: "string \<Rightarrow> error + string"
  playlist_endpoint :: "string \<Rightarrow> string \<Rightarrow> error + track list"
  search_page :: "nat \<Rightarrow> string \<Rightarrow> error + string list list"
  purchases_page :: "string \<Rightarrow> string \<Rightarrow> error + string option list"

text \<open>What a run sends and prints, in order.\<close>

datatype event =
    Token_request string
  | Playlist_request string string
  | Search_request string
  | Purchases_request string string
  | Print_registered nat
  | Print_new_purchases nat

section \<open>The search for one album\<close>

text \<open>
  Lines 23-28 of \<^verbatim>\<open>search_bandcamp_album_url\<close>, on the parsed page: no result gives
  the empty string; otherwise the first anchor of the first result is parsed and
  the answer is the text \<^verbatim>\<open>https://\<close> followed by its \<^verbatim>\<open>netloc\<close> and its \<^verbatim>\<open>path\<close>.
  A first result without an anchor makes the subscript \<^verbatim>\<open>[0]\<close> raise.
\<close>

definition first_result_url ::
  "(string \<Rightarrow> error + parsed_url) \<Rightarrow> string list list \<Rightarrow> error + string" where
  "first_result_url parse search_results =
     (case search_results of
        [] \<Rightarrow> Inr []
      | result # _ \<Rightarrow>
          (case result of
             [] \<Rightarrow> Inl IndexError
           | href # _ \<Rightarrow>
               (case parse href of
                  Inl e \<Rightarrow> Inl e
                | Inr link \<Rightarrow> Inr (''https://'' @ netloc link @ path link))))"

definition search_bandcamp_album_url ::
  "runtime \<Rightarrow> nat \<Rightarrow> string \<Rightarrow> string \<Rightarrow> error + string" where
  "search_bandcamp_album_url w i artist album =
     (case search_page w i (artist @ '' '' @ album) of
        Inl e \<Rightarrow> Inl e
      | Inr search_results \<Rightarrow> first_result_url (urlparse w) search_results)"

section \<open>The requests that need credentials\<close>

text \<open>
  \<^verbatim>\<open>os.environ[...]\<close> raises \<^verbatim>\<open>KeyError\<close> for a variable that is not set. In
  \<^verbatim>\<open>get_spotify_auth_token\<close> both variables are read, in the order of line 31, before
  \<^verbatim>\<open>requests.post\<close> is called; in \<^verbatim>\<open>get_bandcamp_purchases\<close> the arguments of
  \<^verbatim>\<open>requests.get\<close> are evaluated, user name first, before the call.
\<close>

definition get_spotify_auth_token :: "runtime \<Rightarrow> event list \<times> (error + string)" where
  "get_spotify_auth_token w =
     (case environ w ''SPOTIFY_APP_ID'' of
        None \<Rightarrow> ([], Inl KeyError)
      | Some app_id \<Rightarrow>
          (case environ w ''SPOTIFY_APP_SECRET'' of
             None \<Rightarrow> ([], Inl KeyError)
           | Some app_secret \<Rightarrow>
               ([Token_request (app_id @ '':'' @ app_secret)],
                token_endpoint w (app_id @ '':'' @ app_secret))))"

definition get_spotify_playlist ::
  "runtime \<Rightarrow> string \<Rightarrow> string \<Rightarrow> event list \<times> (error + track list)" where
  "get_spotify_playlist w token playlist_id =
     ([Playlist_request token playlist_id], playlist_endpoint w token playlist_id)"

text \<open>Lines 52-56: the links of the items that have an \<^verbatim>\<open>href\<close>.\<close>

fun hrefs :: "string option list \<Rightarrow> string list" where
  "hrefs [] = []"
| "hrefs (None # items) = hrefs items"
| "hrefs (Some link # items) = link # hrefs items"

definition get_bandcamp_purchases :: "runtime \<Rightarrow> event list \<times> (error + string list)" where
  "get_bandcamp_purchases w =
     (case environ w ''BANDCAMP_USERNAME'' of
        None \<Rightarrow> ([], Inl KeyError)
      | Some username \<Rightarrow>
          (case environ w ''BANDCAMP_TOKEN'' of
             None \<Rightarrow> ([], Inl KeyError)
           | Some token \<Rightarrow>
               ([Purchases_request username token],
                (case purchases_page w username token of
                   Inl e \<Rightarrow> Inl e
                 | Inr items \<Rightarrow> Inr (hrefs items)))))"

section \<open>The purchase reconciler\<close>

text \<open>
  Lines 74-79 of \<^verbatim>\<open>bandcamp_refresh_purchased\<close>: the loop over the links that
  \<^verbatim>\<open>get_bandcamp_purchases()\<close> returned at line 73, with the running
  \<^verbatim>\<open>new_purchase_count\<close>. The subscript \<^verbatim>\<open>state["albums"][...]\<close> of line 77 raises
  \<^verbatim>\<open>KeyError\<close> when the reverse index names a key that \<^verbatim>\<open>albums\<close> does not have.
\<close>

fun refresh_loop :: "state \<Rightarrow> nat \<Rightarrow> string list \<Rightarrow> nat outcome" where
  "refresh_loop s c [] = Inr (s, c)"
| "refresh_loop s c (url # urls) =
     (case map_of (bandcamp_url_to_album_key s) url of
        None \<Rightarrow> refresh_loop s c urls
      | Some k \<Rightarrow>
          (case map_of (albums s) k of
             None \<Rightarrow> Inl (KeyError, s)
           | Some a \<Rightarrow>
               if \<not> purchased a
               then refresh_loop
                      (s\<lparr>albums := AList.update k (a\<lparr>purchased := True\<rparr>) (albums s)\<rparr>)
                      (c + 1) urls
               else refresh_loop s c urls))"

text \<open>
  \<^verbatim>\<open>bandcamp_refresh_purchased\<close> from line 74 on, for the list of purchase links that
  line 73 fetched. The number returned with the state is the count that line 81
  prints.
\<close>

definition bandcamp_refresh_purchased :: "state \<Rightarrow> string list \<Rightarrow> nat outcome" where
  "bandcamp_refresh_purchased s bandcamp_purchases = refresh_loop s 0 bandcamp_purchases"

text \<open>The whole function, lines 71-82, with the request of line 73 and the print of line 81.\<close>

definition fetch_and_refresh_purchased :: "runtime \<Rightarrow> state \<Rightarrow> event list \<times> nat outcome" where
  "fetch_and_refresh_purchased w s =
     (case get_bandcamp_purchases w of
        (sent, Inl e) \<Rightarrow> (sent, Inl (e, s))
      | (sent, Inr bandcamp_purchases) \<Rightarrow>
          (case bandcamp_refresh_purchased s bandcamp_purchases of
             Inl failure \<Rightarrow> (sent, Inl failure)
           | Inr (s', new_purchase_count) \<Rightarrow>
               (sent @ [Print_new_purchases new_purchase_count], Inr (s', new_purchase_count))))"

section \<open>The playlist importer\<close>

text \<open>Line 105: the key of the album of a track.\<close>

definition album_key_of :: "track \<Rightarrow> string" where
  "album_key_of t = album_name t @ '':'' @ album_id t"

text \<open>
  Lines 102-123 of \<^verbatim>\<open>pull_spotify_playlist\<close>: the loop over the playlist, with the
  running \<^verbatim>\<open>registered_album_count\<close>. The dict of an album that is not in the store
  yet is built before it is stored, and building it evaluates \<^verbatim>\<open>artists[0]\<close>, which
  raises \<^verbatim>\<open>IndexError\<close> on a track without artists: the store is then as the tracks
  before left it.
\<close>

fun register_albums :: "state \<Rightarrow> nat \<Rightarrow> track list \<Rightarrow> nat outcome" where
  "register_albums s c [] = Inr (s, c)"
| "register_albums s c (t # playlist) =
     (if map_of (albums s) (album_key_of t) \<noteq> None then register_albums s c playlist
      else
        (case artist_names t of
           [] \<Rightarrow> Inl (IndexError, s)
         | first_artist # _ \<Rightarrow>
             register_albums
               (s\<lparr>albums :=
                    AList.update (album_key_of t)
                      \<lparr>key = album_key_of t,
                       id_album = album_id t,
                       name = album_name t,
                       artists = artist_names t,
                       purchased = False,
                       bandcamp_search_term = first_artist @ '' '' @ album_name t,
                       bandcamp_url_found = False,
                       bandcamp_url_searched = False,
                       bandcamp_url = []\<rparr>
                      (albums s)\<rparr>)
               (c + 1) playlist))"

section \<open>The marketplace resolver\<close>

text \<open>
  One call of \<^verbatim>\<open>search_bandcamp_album_url\<close> made by the resolver: the dict key of the
  album it was made for, the two arguments, and what the call returned or raised.
\<close>

record search_call =
  call_key :: string
  call_artist :: string
  call_album :: string
  call_result :: "error + string"

text \<open>Lines 138-141: what a search that returned \<open>url\<close> writes into the album.\<close>

definition record_search :: "album \<Rightarrow> string \<Rightarrow> album" where
  "record_search a url =
     (if url \<noteq> []
      then a\<lparr>bandcamp_url_searched := True, bandcamp_url_found := True, bandcamp_url := url\<rparr>
      else a\<lparr>bandcamp_url_searched := True\<rparr>)"

text \<open>
  Lines 135-147: the loop over \<^verbatim>\<open>state["albums"].values()\<close>. The second argument of
  \<open>search_albums\<close> counts the searches made so far, the last one lists the keys
  still to visit; the function returns the calls it made, in order, with the outcome.

  The loop variable is the album object stored under the key being visited, so
  lines 138-141 change that entry. Line 143 writes the reverse index with the
  \<^verbatim>\<open>key\<close> field of the album, and line 144 assigns the album to
  \<^verbatim>\<open>state["albums"]\<close> under that field. Where the field is the key being visited,
  line 144 changes nothing. Where it is a key the dict does not have, the dict grows
  and the iterator raises \<^verbatim>\<open>RuntimeError\<close> when asked for the next album. Where it
  is the key of another entry, that entry becomes the same Python object as the
  visited one; the loop writes to an album only before it is marked as searched,
  so within the loop the two copies kept here cannot come apart.
\<close>

fun search_albums ::
  "(nat \<Rightarrow> string \<Rightarrow> string \<Rightarrow> error + string) \<Rightarrow> nat \<Rightarrow> state \<Rightarrow> string list \<Rightarrow>
   search_call list \<times> unit outcome" where
  "search_albums search i s [] = ([], Inr (s, ()))"
| "search_albums search i s (k # ks) =
     (case map_of (albums s) k of
        None \<Rightarrow> search_albums search i s ks
      | Some album \<Rightarrow>
          if bandcamp_url_searched album then search_albums search i s ks
          else
            (case artists album of
               [] \<Rightarrow> ([], Inl (IndexError, s))
             | artist # _ \<Rightarrow>
                 (case search i artist (name album) of
                    Inl e \<Rightarrow>
                      ([\<lparr>call_key = k, call_artist = artist, call_album = name album,
                         call_result = Inl e\<rparr>],
                       Inl (e, s))
                  | Inr url \<Rightarrow>
                      (let call = \<lparr>call_key = k, call_artist = artist,
                                   call_album = name album, call_result = Inr url\<rparr>;
                           album' = record_search album url;
                           s' = s\<lparr>albums :=
                                    AList.update (key album) album'
                                      (AList.update k album' (albums s)),
                                  bandcamp_url_to_album_key :=
                                    (if url \<noteq> []
                                     then AList.update url (key album)
                                            (bandcamp_url_to_album_key s)
                                     else bandcamp_url_to_album_key s)\<rparr>
                       in if map_of (albums s) (key album) \<noteq> None
                          then apfst ((#) call) (search_albums search (Suc i) s' ks)
                          else ([call], Inl (RuntimeError, s'))))))"

text \<open>One pass of the resolver over the whole store.\<close>

definition resolve_albums ::
  "(nat \<Rightarrow> string \<Rightarrow> string \<Rightarrow> error + string) \<Rightarrow> state \<Rightarrow> search_call list \<times> unit outcome" where
  "resolve_albums search s = search_albums search 0 s (map fst (albums s))"

section \<open>Pulling a playlist\<close>

text \<open>
  \<^verbatim>\<open>os.path.split(p)[-1]\<close> of \<^verbatim>\<open>posixpath\<close>: what follows the last slash of \<open>p\<close>.
\<close>

definition path_tail :: "string \<Rightarrow> string" where
  "path_tail p = rev (takeWhile (\<lambda>c. c \<noteq> CHR ''/'') (rev p))"

definition search_request :: "search_call \<Rightarrow> event" where
  "search_request call = Search_request (call_artist call @ '' '' @ call_album call)"

text \<open>
  \<^verbatim>\<open>pull_spotify_playlist\<close>, lines 93-152, for the state and the value of
  \<^verbatim>\<open>cli_args.playlist\<close>: the events of the run and its outcome.
\<close>

definition pull_spotify_playlist :: "runtime \<Rightarrow> state \<Rightarrow> string \<Rightarrow> event list \<times> nat outcome" where
  "pull_spotify_playlist w s playlist_url =
     (case get_spotify_auth_token w of
        (sent1, Inl e) \<Rightarrow> (sent1, Inl (e, s))
      | (sent1, Inr s_token) \<Rightarrow>
          (case urlparse w playlist_url of
             Inl e \<Rightarrow> (sent1, Inl (e, s))
           | Inr parsed_playlist_url \<Rightarrow>
               (case get_spotify_playlist w s_token (path_tail (path parsed_playlist_url)) of
                  (sent2, Inl e) \<Rightarrow> (sent1 @ sent2, Inl (e, s))
                | (sent2, Inr playlist) \<Rightarrow>
                    (case register_albums s 0 playlist of
                       Inl failure \<Rightarrow> (sent1 @ sent2, Inl failure)
                     | Inr (s1, registered_album_count) \<Rightarrow>
                         (case resolve_albums (search_bandcamp_album_url w) s1 of
                            (calls, Inl failure) \<Rightarrow>
                              (sent1 @ sent2 @ [Print_registered registered_album_count]
                                 @ map search_request calls,
                               Inl failure)
                          | (calls, Inr (s2, _)) \<Rightarrow>
                              (case fetch_and_refresh_purchased w s2 of
                                 (sent3, result) \<Rightarrow>
                                   (sent1 @ sent2 @ [Print_registered registered_album_count]
                                      @ map search_request calls @ sent3,
                                    result)))))))"

section \<open>Reporting\<close>

text \<open>\<^verbatim>\<open>print_unpurchased\<close>, lines 154-157: the lines it prints.\<close>

definition print_unpurchased :: "state \<Rightarrow> string list" where
  "print_unpurchased s =
     map (\<lambda>(k, a). bandcamp_url a)
       (filter (\<lambda>(k, a). \<not> purchased a \<and> bandcamp_url_found a) (albums s))"

text \<open>
  \<^verbatim>\<open>print_stats\<close>, lines 159-179. The loop of lines 164-171 keeps four counters. The
  four prints of lines 174-177 come first; the text of line 178 divides by
  \<^verbatim>\<open>album_count\<close> before anything of that line is printed. Python computes the two
  percentages in floating point; the model keeps the exact quotient.
\<close>

fun count_albums :: "int \<times> int \<times> int \<times> int \<Rightarrow> (string \<times> album) list \<Rightarrow> int \<times> int \<times> int \<times> int" where
  "count_albums counts [] = counts"
| "count_albums (album_count, purchased_count, url_found_count, url_searched_count) ((k, a) # rest) =
     count_albums
       (album_count + 1,
        (if purchased a then purchased_count + 1 else purchased_count),
        (if bandcamp_url_found a then url_found_count + 1 else url_found_count),
        (if bandcamp_url_searched a then url_searched_count + 1 else url_searched_count))
       rest"

datatype stats_line =
    Albums_registered int
  | Albums_purchased int
  | Albums_found int int
  | Albums_unsearched int
  | Percent_purchased rat
  | Percent_not_found rat

definition print_stats :: "state \<Rightarrow> stats_line list \<times> (error + unit)" where
  "print_stats s =
     (case count_albums (0, 0, 0, 0) (albums s) of
        (album_count, purchased_count, url_found_count, url_searched_count) \<Rightarrow>
          (let url_not_found_count = album_count - url_found_count;
               printed = [Albums_registered album_count,
                          Albums_purchased purchased_count,
                          Albums_found url_found_count url_not_found_count,
                          Albums_unsearched (album_count - url_searched_count)]
           in if album_count = 0 then (printed, Inl ZeroDivisionError)
              else (printed @
                      [Percent_purchased (of_int purchased_count / of_int album_count * 100),
                       Percent_not_found (of_int url_not_found_count / of_int album_count * 100)],
                    Inr ())))"

section \<open>Reachable states and their invariants\<close>

text \<open>
  The script works on the state in three loops: the importer, the resolver and the
  reconciler. \<open>evolves s s'\<close> says that \<open>s'\<close> is what some sequence of them, each
  with any playlist, search service or purchase list, makes of \<open>s\<close> in memory,
  whether they return or raise. What \<^verbatim>\<open>dump_state\<close> writes and a later run loads is
  such a state, so the relation also follows the store from run to run. A state is
  reachable when the new state evolves to it.
\<close>

inductive evolves :: "state \<Rightarrow> state \<Rightarrow> bool" where
  same: "evolves s s"
| imported: "evolves s s' \<Longrightarrow> evolves s (final_state (register_albums s' 0 playlist))"
| resolved: "evolves s s' \<Longrightarrow> evolves s (final_state (snd (resolve_albums search s')))"
| reconciled:
    "evolves s s' \<Longrightarrow> evolves s (final_state (bandcamp_refresh_purchased s' purchases))"

definition reachable :: "state \<Rightarrow> bool" where
  "reachable s \<longleftrightarrow> evolves new_state s"

text \<open>An album as it may stand under the key \<open>k\<close>.\<close>

definition album_ok :: "string \<Rightarrow> album \<Rightarrow> bool" where
  "album_ok k a \<longleftrightarrow>
     key a = k \<and>
     (\<not> bandcamp_url_searched a \<longrightarrow>
        \<not> bandcamp_url_found a \<and> \<not> purchased a \<and> bandcamp_url a = [])"

text \<open>Reverse-index consistency, for one entry of the index.\<close>

definition index_entry_ok :: "state \<Rightarrow> string \<Rightarrow> string \<Rightarrow> bool" where
  "index_entry_ok s url k \<longleftrightarrow>
     (\<exists>a. map_of (albums s) k = Some a \<and> bandcamp_url a = url \<and> bandcamp_url_searched a)"

definition well_formed :: "state \<Rightarrow> bool" where
  "well_formed s \<longleftrightarrow>
     distinct (map fst (albums s)) \<and>
     distinct (map fst (bandcamp_url_to_album_key s)) \<and>
     (\<forall>(k, a) \<in> set (albums s). album_ok k a) \<and>
     (\<forall>(url, k) \<in> set (bandcamp_url_to_album_key s). index_entry_ok s url k)"

section \<open>What the reconciler may change\<close>

text \<open>
  Two albums that differ at most in \<open>purchased\<close>, and there only from false to
  true; and two entries of \<^verbatim>\<open>albums\<close> with the same key and such albums.
\<close>

definition same_but_purchased :: "album \<Rightarrow> album \<Rightarrow> bool" where
  "same_but_purchased a a' \<longleftrightarrow>
     a' = a\<lparr>purchased := purchased a'\<rparr> \<and> (purchased a \<longrightarrow> purchased a')"

definition entry_frame :: "string \<times> album \<Rightarrow> string \<times> album \<Rightarrow> bool" where
  "entry_frame p p' \<longleftrightarrow> fst p' = fst p \<and> same_but_purchased (snd p) (snd p')"

text \<open>
  A purchase link the loop of the reconciler has nothing left to do for: the reverse
  index does not have it, or the album it names is there and marked as purchased.
\<close>

definition settled :: "state \<Rightarrow> string \<Rightarrow> bool" where
  "settled s url \<longleftrightarrow>
     (case map_of (bandcamp_url_to_album_key s) url of
        None \<Rightarrow> True
      | Some k \<Rightarrow> (\<exists>a. map_of (albums s) k = Some a \<and> purchased a))"

section \<open>A small run\<close>

text \<open>
  The scenario of the specification: the store is empty, the playlist has one track of
  the album \<^verbatim>\<open>X\<close> with id \<^verbatim>\<open>1\<close> by the artist \<^verbatim>\<open>A\<close>, the search finds a listing, and the
  purchase page links to it.
\<close>

definition demo_track :: track where
  "demo_track = \<lparr>album_id = ''1'', album_name = ''X'', artist_names = [''A'']\<rparr>"

definition demo_album :: album where
  "demo_album =
     \<lparr>key = ''X:1'', id_album = ''1'', name = ''X'', artists = [''A''], purchased = False,
      bandcamp_search_term = ''A X'', bandcamp_url_found = False,
      bandcamp_url_searched = False, bandcamp_url = []\<rparr>"

definition demo_url :: string where
  "demo_url = ''https://artist.bandcamp.com/album/x''"

definition demo_imported :: state where
  "demo_imported = \<lparr>albums = [(''X:1'', demo_album)], bandcamp_url_to_album_key = []\<rparr>"

definition demo_resolved :: state where
  "demo_resolved =
     \<lparr>albums = [(''X:1'', demo_album\<lparr>bandcamp_url_searched := True,
                                     bandcamp_url_found := True,
                                     bandcamp_url := demo_url\<rparr>)],
      bandcamp_url_to_album_key = [(demo_url, ''X:1'')]\<rparr>"

definition demo_reconciled :: state where
  "demo_reconciled =
     \<lparr>albums = [(''X:1'', demo_album\<lparr>bandcamp_url_searched := True,
                                     bandcamp_url_found := True,
                                     bandcamp_url := demo_url,
                                     purchased := True\<rparr>)],
      bandcamp_url_to_album_key = [(demo_url, ''X:1'')]\<rparr>"

text \<open>A search service that finds the listing, and one that finds nothing.\<close>

definition demo_search :: "nat \<Rightarrow> string \<Rightarrow> string \<Rightarrow> error + string" where
  "demo_search i artist album = Inr demo_url"

definition empty_search :: "nat \<Rightarrow> string \<Rightarrow> string \<Rightarrow> error + string" where
  "empty_search i artist album = Inr []"

text \<open>A track that names no artist.\<close>

definition anonymous_track :: track where
  "anonymous_track = \<lparr>album_id = ''2'', album_name = ''Y'', artist_names = []\<rparr>"

text \<open>The store after a search for the album of \<open>demo_track\<close> that found nothing.\<close>

definition demo_unlisted :: state where
  "demo_unlisted =
     \<lparr>albums = [(''X:1'', demo_album\<lparr>bandcamp_url_searched := True\<rparr>)],
      bandcamp_url_to_album_key = []\<rparr>"

text \<open>A track of another album, by two artists.\<close>

definition second_track :: track where
  "second_track = \<lparr>album_id = ''2'', album_name = ''Y'', artist_names = [''B'', ''C'']\<rparr>"

section \<open>The URL parser used in the examples\<close>

text \<open>
  \<open>urlparse_ascii\<close> follows \<^verbatim>\<open>urlsplit\<close> and \<^verbatim>\<open>urlparse\<close> of CPython 3.12
  (\<^verbatim>\<open>Lib/urllib/parse.py\<close>) step by step, for ASCII text: leading control characters
  and spaces are stripped, tabs and line breaks removed, a scheme is split off when
  the text before the first colon starts with a letter and consists of
  \<^verbatim>\<open>scheme_chars\<close>, the network location after \<^verbatim>\<open>//\<close> runs to the first of
  \<^verbatim>\<open>/ ? #\<close>, then fragment, query and parameters are split off. Square brackets in
  the network location must come in pairs; what stands between them is not looked
  at, and the check of non-ASCII host names has no counterpart. The properties below
  hold for any parser; this one serves the concrete runs.
\<close>

definition ascii_letters :: string where
  "ascii_letters = ''abcdefghijklmnopqrstuvwxyzABCDEFGHIJKLMNOPQRSTUVWXYZ''"

definition scheme_chars :: string where
  "scheme_chars = ascii_letters @ ''0123456789'' @ ''+-.''"

definition ascii_lower :: "char \<Rightarrow> char" where
  "ascii_lower c =
     (case map_of (zip ''ABCDEFGHIJKLMNOPQRSTUVWXYZ'' ''abcdefghijklmnopqrstuvwxyz'') c of
        None \<Rightarrow> c
      | Some l \<Rightarrow> l)"

definition uses_params :: "string list" where
  "uses_params =
     ['''', ''ftp'', ''hdl'', ''prospero'', ''http'', ''imap'', ''https'', ''shttp'',
      ''rtsp'', ''rtspu'', ''sip'', ''sips'', ''mms'', ''sftp'', ''tel'']"

text \<open>\<^verbatim>\<open>s.split(c, 1)\<close> as a pair, with an empty second part when \<open>c\<close> is not in \<open>s\<close>.\<close>

definition split_once :: "char \<Rightarrow> string \<Rightarrow> string \<times> string" where
  "split_once c s = (takeWhile (\<lambda>x. x \<noteq> c) s, drop 1 (dropWhile (\<lambda>x. x \<noteq> c) s))"

text \<open>\<^verbatim>\<open>_splitparams\<close>, called when the path has a semicolon.\<close>

definition splitparams :: "string \<Rightarrow> string \<times> string" where
  "splitparams url =
     (let last_segment = rev (takeWhile (\<lambda>x. x \<noteq> CHR ''/'') (rev url));
          front = take (length url - length last_segment) url
      in if CHR '';'' \<in> set last_segment
         then (front @ fst (split_once CHR '';'' last_segment),
               snd (split_once CHR '';'' last_segment))
         else (url, []))"

definition urlparse_ascii :: "string \<Rightarrow> error + parsed_url" where
  "urlparse_ascii text =
     (let url0 = filter (\<lambda>c. c \<noteq> char_of (9::nat) \<and> c \<noteq> char_of (13::nat) \<and> c \<noteq> char_of (10::nat))
                   (dropWhile (\<lambda>c. (of_char c :: nat) \<le> 32) text);
          before_colon = takeWhile (\<lambda>x. x \<noteq> CHR '':'') url0;
          has_scheme = (CHR '':'' \<in> set url0 \<and> before_colon \<noteq> [] \<and>
                        hd before_colon \<in> set ascii_letters \<and>
                        list_all (\<lambda>c. c \<in> set scheme_chars) before_colon);
          scheme_part = (if has_scheme then map ascii_lower before_colon else []);
          url1 = (if has_scheme then drop (length before_colon + 1) url0 else url0);
          has_netloc = (take 2 url1 = ''//'');
          netloc_part =
            (if has_netloc
             then takeWhile (\<lambda>c. c \<notin> set ''/?#'') (drop 2 url1) else []);
          url2 = (if has_netloc
                  then dropWhile (\<lambda>c. c \<notin> set ''/?#'') (drop 2 url1) else url1)
      in if (CHR ''['' \<in> set netloc_part) \<noteq> (CHR '']'' \<in> set netloc_part)
         then Inl ValueError
         else
           (let (url3, fragment_part) = split_once CHR ''#'' url2;
                (url4, query_part) = split_once CHR ''?'' url3;
                (path_part, params_part) =
                  (if scheme_part \<in> set uses_params \<and> CHR '';'' \<in> set url4
                   then splitparams url4 else (url4, []))
            in Inr \<lparr>scheme = scheme_part, netloc = netloc_part, path = path_part,
                    params = params_part, query = query_part,
                    fragment = fragment_part\<rparr>))"

section \<open>What the specification says of the stored URL\<close>

text \<open>
  The specification's words for the stored URL: the target link with any query
  string stripped, keeping scheme, host and path.
\<close>

definition keep_scheme_host_path :: "parsed_url \<Rightarrow> string" where
  "keep_scheme_host_path link = scheme link @ ''://'' @ netloc link @ path link"

text \<open>
  The specification's words for a missing variable: the four variables are
  required, and the run is to stop on a \<^verbatim>\<open>KeyError\<close> before it sends anything.
\<close>

definition required_variables :: "string list" where
  "required_variables =
     [''SPOTIFY_APP_ID'', ''SPOTIFY_APP_SECRET'', ''BANDCAMP_USERNAME'', ''BANDCAMP_TOKEN'']"

definition fails_before_any_request :: "event list \<times> nat outcome \<Rightarrow> bool" where
  "fails_before_any_request run \<longleftrightarrow>
     fst run = [] \<and> (case snd run of Inl (e, s) \<Rightarrow> e = KeyError | Inr _ \<Rightarrow> False)"

section \<open>Runtimes for the examples\<close>

text \<open>
  The services of the small run: the token endpoint grants \<^verbatim>\<open>token\<close>, the playlist has
  \<open>demo_track\<close>, every search finds one result with the given link, and the purchase
  page has one item with a link to \<open>demo_url\<close> and one without a link.
\<close>

definition demo_runtime :: "(string \<times> string) list \<Rightarrow> string \<Rightarrow> runtime" where
  "demo_runtime variables href =
     \<lparr>environ = map_of variables,
      urlparse = urlparse_ascii,
      token_endpoint = (\<lambda>credentials. Inr ''token''),
      playlist_endpoint = (\<lambda>token playlist_id. Inr [demo_track]),
      search_page = (\<lambda>i q. Inr [[href, ''/other''], []]),
      purchases_page = (\<lambda>username token. Inr [Some demo_url, None])\<rparr>"

definition spotify_variables :: "(string \<times> string) list" where
  "spotify_variables = [(''SPOTIFY_APP_ID'', ''id''), (''SPOTIFY_APP_SECRET'', ''secret'')]"

definition bandcamp_variables :: "(string \<times> string) list" where
  "bandcamp_variables = [(''BANDCAMP_USERNAME'', ''user''), (''BANDCAMP_TOKEN'', ''cookie'')]"

section \<open>Properties of the purchase reconciler\<close>

lemma refresh_loop_index:
  "bandcamp_url_to_album_key (final_state (refresh_loop s c urls)) = bandcamp_url_to_album_key s"
  by (induction s c urls rule: refresh_loop.induct) (simp_all split: option.splits)

lemma refresh_loop_settled_prefix:
  "\<forall>u \<in> set seen. settled s u \<Longrightarrow>
   refresh_loop s c (seen @ urls) = refresh_loop s c urls"
  by (induction seen) (auto simp: settled_def split: option.splits)

lemma settled_mark:
  assumes "settled s u"
  shows "settled (s\<lparr>albums := AList.update k (a\<lparr>purchased := True\<rparr>) (albums s)\<rparr>) u"
  using assms by (auto simp: settled_def update_conv' split: option.splits)

lemma refresh_loop_again:
  "\<forall>u \<in> set seen. settled s u \<Longrightarrow>
   refresh_loop (final_state (refresh_loop s c urls)) c' (seen @ urls) =
     (case refresh_loop s c urls of
        Inl (e, s1) \<Rightarrow> Inl (e, s1)
      | Inr (s1, n) \<Rightarrow> Inr (s1, c'))"
proof (induction s c urls arbitrary: seen rule: refresh_loop.induct)
  case (1 s c)
  then show ?case using refresh_loop_settled_prefix [of seen s c' "[]"] by simp
next
  case (2 s c url urls)
  show ?case
  proof (cases "map_of (bandcamp_url_to_album_key s) url")
    case None
    then have "settled s url" by (simp add: settled_def)
    with "2.prems" have "\<forall>u \<in> set (seen @ [url]). settled s u" by simp
    from "2.IH"(1) [OF None this] None show ?thesis by simp
  next
    case (Some k)
    note idx = this
    show ?thesis
    proof (cases "map_of (albums s) k")
      case None
      with idx refresh_loop_settled_prefix [OF "2.prems", of c' "url # urls"]
      show ?thesis by simp
    next
      case (Some a)
      show ?thesis
      proof (cases "purchased a")
        case True
        with idx Some have "settled s url" by (simp add: settled_def)
        with "2.prems" have "\<forall>u \<in> set (seen @ [url]). settled s u" by simp
        from "2.IH"(3) [OF idx Some _ this] True idx Some show ?thesis by simp
      next
        case False
        let ?s = "s\<lparr>albums := AList.update k (a\<lparr>purchased := True\<rparr>) (albums s)\<rparr>"
        have "settled ?s url" using idx by (simp add: settled_def update_conv')
        with "2.prems" have "\<forall>u \<in> set (seen @ [url]). settled ?s u"
          by (auto intro: settled_mark)
        from "2.IH"(2) [OF idx Some False this] False idx Some show ?thesis by simp
      qed
    qed
  qed
qed

lemma entry_frame_refl: "entry_frame p p"
  by (simp add: entry_frame_def same_but_purchased_def)

lemma entry_frame_trans: "entry_frame p q \<Longrightarrow> entry_frame q r \<Longrightarrow> entry_frame p r"
  unfolding entry_frame_def same_but_purchased_def
  by (cases "snd p"; cases "snd q"; cases "snd r") auto

lemma update_entry_frame:
  "map_of al k = Some a \<Longrightarrow>
   list_all2 entry_frame al (AList.update k (a\<lparr>purchased := True\<rparr>) al)"
proof (induction al)
  case Nil
  then show ?case by simp
next
  case (Cons p al)
  show ?case
  proof (cases "fst p = k")
    case True
    with Cons.prems have "snd p = a" by (cases p) simp
    with True have "entry_frame p (k, a\<lparr>purchased := True\<rparr>)"
      by (simp add: entry_frame_def same_but_purchased_def)
    with True show ?thesis
      by (simp add: list_all2_refl entry_frame_refl)
  next
    case False
    with Cons.prems have "map_of al k = Some a" by (cases p) (auto split: if_splits)
    with Cons.IH False show ?thesis by (simp add: entry_frame_refl)
  qed
qed

lemma refresh_loop_frame:
  "list_all2 entry_frame (albums s) (albums (final_state (refresh_loop s c urls)))"
proof (induction s c urls rule: refresh_loop.induct)
  case (1 s c)
  then show ?case by (simp add: list_all2_refl entry_frame_refl)
next
  case (2 s c url urls)
  show ?case
  proof (cases "map_of (bandcamp_url_to_album_key s) url")
    case None
    with 2 show ?thesis by simp
  next
    case (Some k)
    note idx = this
    show ?thesis
    proof (cases "map_of (albums s) k")
      case None
      with idx show ?thesis by (simp add: list_all2_refl entry_frame_refl)
    next
      case (Some a)
      show ?thesis
      proof (cases "purchased a")
        case True
        with idx Some "2.IH"(3) show ?thesis by simp
      next
        case False
        let ?s = "s\<lparr>albums := AList.update k (a\<lparr>purchased := True\<rparr>) (albums s)\<rparr>"
        have "list_all2 entry_frame (albums s) (albums ?s)"
          using update_entry_frame [OF Some] by simp
        moreover have "list_all2 entry_frame (albums ?s)
            (albums (final_state (refresh_loop ?s (c + 1) urls)))"
          using "2.IH"(2) [OF idx Some False] .
        ultimately have "list_all2 entry_frame (albums s)
            (albums (final_state (refresh_loop ?s (c + 1) urls)))"
          by (rule list_all2_trans [rotated]) (rule entry_frame_trans)
        with idx Some False show ?thesis by simp
      qed
    qed
  qed
qed

lemma refresh_loop_skip:
  "map_of (bandcamp_url_to_album_key s) url = None \<Longrightarrow>
   refresh_loop s c (xs @ url # ys) = refresh_loop s c (xs @ ys)"
  by (induction s c xs rule: refresh_loop.induct) (simp_all split: option.splits)

text \<open>
  Claim C1. The purchase reconciler is idempotent. For every state and every list of
  purchase links, running \<^verbatim>\<open>bandcamp_refresh_purchased\<close> again, with the same list,
  on the state the first run left in memory leaves that state as it is; and when the
  first run returned, the second returns too and counts 0 newly purchased albums.
\<close>

theorem refresh_idempotent:
  "final_state (bandcamp_refresh_purchased
      (final_state (bandcamp_refresh_purchased s bandcamp_purchases)) bandcamp_purchases) =
     final_state (bandcamp_refresh_purchased s bandcamp_purchases) \<and>
   (bandcamp_refresh_purchased s bandcamp_purchases = Inr (s', n) \<longrightarrow>
      bandcamp_refresh_purchased s' bandcamp_purchases = Inr (s', 0))"
  using refresh_loop_again [of "[]" s 0 bandcamp_purchases 0]
  by (auto simp: bandcamp_refresh_purchased_def split: sum.splits)

theorem refresh_idempotent_witness:
  "final_state (bandcamp_refresh_purchased
      (final_state (bandcamp_refresh_purchased demo_resolved
         [demo_url, ''https://other.bandcamp.com/album/z'']))
      [demo_url, ''https://other.bandcamp.com/album/z'']) =
     final_state (bandcamp_refresh_purchased demo_resolved
       [demo_url, ''https://other.bandcamp.com/album/z'']) \<and>
   bandcamp_refresh_purchased demo_resolved [demo_url, ''https://other.bandcamp.com/album/z'']
     = Inr (demo_reconciled, 1) \<and>
   bandcamp_refresh_purchased demo_reconciled [demo_url, ''https://other.bandcamp.com/album/z'']
     = Inr (demo_reconciled, 0)"
proof -
  have first: "bandcamp_refresh_purchased demo_resolved
      [demo_url, ''https://other.bandcamp.com/album/z''] = Inr (demo_reconciled, 1)"
    by (simp add: bandcamp_refresh_purchased_def demo_resolved_def demo_reconciled_def
        demo_url_def demo_album_def)
  from refresh_idempotent [of demo_resolved
      "[demo_url, ''https://other.bandcamp.com/album/z'']" demo_reconciled 1] first
  show ?thesis by simp
qed

text \<open>
  Claim C9. The purchase reconciler changes nothing but \<open>purchased\<close> fields, and those
  only from false to true. Whether \<^verbatim>\<open>bandcamp_refresh_purchased\<close> returns or raises,
  the entries of \<^verbatim>\<open>albums\<close> afterwards stand in the same order under the same keys,
  each album equal to the one before in every field but \<open>purchased\<close>, which is still
  true where it was true; the reverse index is the same; and a purchase link that the
  reverse index does not have can be taken out of the list without changing the
  outcome.
\<close>

theorem refresh_frame:
  "list_all2 entry_frame (albums s)
     (albums (final_state (bandcamp_refresh_purchased s bandcamp_purchases))) \<and>
   map fst (albums (final_state (bandcamp_refresh_purchased s bandcamp_purchases))) =
     map fst (albums s) \<and>
   bandcamp_url_to_album_key (final_state (bandcamp_refresh_purchased s bandcamp_purchases)) =
     bandcamp_url_to_album_key s \<and>
   (map_of (bandcamp_url_to_album_key s) url = None \<longrightarrow>
      bandcamp_refresh_purchased s (xs @ url # ys) = bandcamp_refresh_purchased s (xs @ ys))"
proof -
  let ?s' = "final_state (bandcamp_refresh_purchased s bandcamp_purchases)"
  have fr: "list_all2 entry_frame (albums s) (albums ?s')"
    unfolding bandcamp_refresh_purchased_def by (rule refresh_loop_frame)
  have "list_all2 (\<lambda>p p'. fst p' = fst p) (albums s) (albums ?s')"
    by (rule list_all2_mono [OF fr]) (simp add: entry_frame_def)
  then have "map fst (albums ?s') = map fst (albums s)"
    by (induction rule: list_all2_induct) simp_all
  with fr show ?thesis
    by (simp add: bandcamp_refresh_purchased_def refresh_loop_index refresh_loop_skip)
qed

theorem refresh_frame_witness:
  "list_all2 entry_frame (albums demo_resolved) (albums demo_reconciled) \<and>
   map fst (albums demo_reconciled) = map fst (albums demo_resolved) \<and>
   bandcamp_url_to_album_key demo_reconciled = bandcamp_url_to_album_key demo_resolved \<and>
   map_of (bandcamp_url_to_album_key demo_resolved) ''https://other.bandcamp.com/album/z'' = None \<and>
   bandcamp_refresh_purchased demo_resolved [demo_url, ''https://other.bandcamp.com/album/z'']
     = bandcamp_refresh_purchased demo_resolved [demo_url] \<and>
   purchased (snd (hd (albums demo_reconciled))) \<and>
   \<not> purchased (snd (hd (albums demo_resolved)))"
proof -
  have run: "bandcamp_refresh_purchased demo_resolved [demo_url] = Inr (demo_reconciled, 1)"
    by (simp add: bandcamp_refresh_purchased_def demo_resolved_def demo_reconciled_def
        demo_url_def demo_album_def)
  have absent: "map_of (bandcamp_url_to_album_key demo_resolved)
      ''https://other.bandcamp.com/album/z'' = None"
    by (simp add: demo_resolved_def demo_url_def)
  have flags: "purchased (snd (hd (albums demo_reconciled))) \<and>
      \<not> purchased (snd (hd (albums demo_resolved)))"
    by (simp add: demo_resolved_def demo_reconciled_def demo_album_def)
  from refresh_frame [of demo_resolved "[demo_url]" "''https://other.bandcamp.com/album/z''"
      "[demo_url]" "[]"] run absent flags
  show ?thesis by simp
qed

section \<open>Properties of the playlist importer\<close>

lemma register_albums_keeps:
  "map_of (albums s) k = Some a \<Longrightarrow>
   map_of (albums (final_state (register_albums s c playlist))) k = Some a"
proof (induction s c playlist rule: register_albums.induct)
  case (1 s c)
  then show ?case by simp
next
  case (2 s c t playlist)
  show ?case
  proof (cases "map_of (albums s) (album_key_of t) \<noteq> None")
    case True
    with 2 show ?thesis by simp
  next
    case False
    with "2.prems" have neq: "k \<noteq> album_key_of t" by auto
    show ?thesis
    proof (cases "artist_names t")
      case Nil
      with False "2.prems" show ?thesis by simp
    next
      case (Cons first_artist others)
      from "2.IH"(2) [OF False Cons] "2.prems" neq False Cons show ?thesis
        by (simp add: update_conv')
    qed
  qed
qed

lemma register_albums_returns:
  "\<forall>b \<in> set playlist. map_of (albums s) (album_key_of b) = None \<longrightarrow> artist_names b \<noteq> [] \<Longrightarrow>
   \<exists>s' n. register_albums s c playlist = Inr (s', n)"
proof (induction playlist arbitrary: s c)
  case Nil
  then show ?case by simp
next
  case (Cons t playlist)
  show ?case
  proof (cases "map_of (albums s) (album_key_of t) \<noteq> None")
    case True
    from Cons.prems have "\<forall>b \<in> set playlist.
        map_of (albums s) (album_key_of b) = None \<longrightarrow> artist_names b \<noteq> []" by simp
    from Cons.IH [OF this, of c] True show ?thesis by simp
  next
    case False
    with Cons.prems obtain first_artist others
      where artists: "artist_names t = first_artist # others"
      by (cases "artist_names t") auto
    let ?a = "\<lparr>key = album_key_of t, id_album = album_id t, name = album_name t,
               artists = artist_names t, purchased = False,
               bandcamp_search_term = first_artist @ '' '' @ album_name t,
               bandcamp_url_found = False, bandcamp_url_searched = False,
               bandcamp_url = []\<rparr>"
    let ?s = "s\<lparr>albums := AList.update (album_key_of t) ?a (albums s)\<rparr>"
    have "\<forall>b \<in> set playlist.
        map_of (albums ?s) (album_key_of b) = None \<longrightarrow> artist_names b \<noteq> []"
      using Cons.prems by (auto simp: update_conv' split: if_splits)
    from Cons.IH [OF this, of "c + 1"] False artists show ?thesis by simp
  qed
qed

lemma register_albums_record:
  assumes "register_albums s c (before @ t # after) = Inr (s', n)"
    and "map_of (albums s) (album_key_of t) = None"
    and "album_key_of t \<notin> album_key_of ` set before"
  shows "artist_names t \<noteq> [] \<and>
    map_of (albums s') (album_name t @ '':'' @ album_id t) =
      Some \<lparr>key = album_name t @ '':'' @ album_id t,
            id_album = album_id t,
            name = album_name t,
            artists = artist_names t,
            purchased = False,
            bandcamp_search_term = hd (artist_names t) @ '' '' @ album_name t,
            bandcamp_url_found = False,
            bandcamp_url_searched = False,
            bandcamp_url = []\<rparr>"
  using assms
proof (induction before arbitrary: s c)
  case Nil
  from Nil.prems(1,2) obtain first_artist others
    where artists: "artist_names t = first_artist # others"
    by (cases "artist_names t") auto
  let ?a = "\<lparr>key = album_key_of t, id_album = album_id t, name = album_name t,
             artists = artist_names t, purchased = False,
             bandcamp_search_term = first_artist @ '' '' @ album_name t,
             bandcamp_url_found = False, bandcamp_url_searched = False,
             bandcamp_url = []\<rparr>"
  let ?s = "s\<lparr>albums := AList.update (album_key_of t) ?a (albums s)\<rparr>"
  from Nil.prems(1,2) artists
  have rest: "register_albums ?s (c + 1) after = Inr (s', n)" by simp
  have "map_of (albums ?s) (album_key_of t) = Some ?a"
    by (simp add: update_conv')
  from register_albums_keeps [OF this, of "c + 1" after] rest
  have "map_of (albums s') (album_key_of t) = Some ?a" by simp
  with artists show ?case by (simp add: album_key_of_def)
next
  case (Cons b before)
  from Cons.prems(3) have neq: "album_key_of t \<noteq> album_key_of b"
    and later: "album_key_of t \<notin> album_key_of ` set before" by auto
  show ?case
  proof (cases "map_of (albums s) (album_key_of b) \<noteq> None")
    case True
    with Cons.prems(1) have "register_albums s c (before @ t # after) = Inr (s', n)" by simp
    from Cons.IH [OF this Cons.prems(2) later] show ?thesis .
  next
    case False
    with Cons.prems(1) obtain first_artist others
      where artists: "artist_names b = first_artist # others"
      by (cases "artist_names b") auto
    let ?a = "\<lparr>key = album_key_of b, id_album = album_id b, name = album_name b,
               artists = artist_names b, purchased = False,
               bandcamp_search_term = first_artist @ '' '' @ album_name b,
               bandcamp_url_found = False, bandcamp_url_searched = False,
               bandcamp_url = []\<rparr>"
    let ?s = "s\<lparr>albums := AList.update (album_key_of b) ?a (albums s)\<rparr>"
    from Cons.prems(1) False artists
    have rest: "register_albums ?s (c + 1) (before @ t # after) = Inr (s', n)" by simp
    from Cons.prems(2) neq have "map_of (albums ?s) (album_key_of t) = None"
      by (simp add: update_conv')
    from Cons.IH [OF rest this later] show ?thesis .
  qed
qed

text \<open>
  Claim C7. Take a track of the playlist whose album key is not in the store when
  the loop reaches it: it was not there before, and no earlier track of the playlist
  has it. If every track of the playlist whose album key is not in the store before
  the import names an artist, the importer returns, and the store it returns has an
  album record under the key \<^verbatim>\<open>name:id\<close> of that track, with \<open>purchased\<close>,
  \<open>bandcamp_url_searched\<close> and \<open>bandcamp_url_found\<close> false, an empty \<open>bandcamp_url\<close>,
  and the search term made of the first artist of the track, a space and the album
  name. Whenever the importer returns, for any playlist, the track names an artist
  and that record is in the returned store. The scenario of the specification, album
  \<^verbatim>\<open>X\<close> with id \<^verbatim>\<open>1\<close> by \<^verbatim>\<open>A\<close> into the empty store, follows the general statement,
  with an import of a second album into a store that already has the first.
\<close>

theorem import_creates_album:
  assumes "map_of (albums s) (album_key_of t) = None"
    and "album_key_of t \<notin> album_key_of ` set before"
  shows
    "((\<forall>b \<in> set (before @ t # after).
         map_of (albums s) (album_key_of b) = None \<longrightarrow> artist_names b \<noteq> []) \<longrightarrow>
      (\<exists>s' n. register_albums s c (before @ t # after) = Inr (s', n) \<and>
         map_of (albums s') (album_name t @ '':'' @ album_id t) =
           Some \<lparr>key = album_name t @ '':'' @ album_id t,
                 id_album = album_id t,
                 name = album_name t,
                 artists = artist_names t,
                 purchased = False,
                 bandcamp_search_term = hd (artist_names t) @ '' '' @ album_name t,
                 bandcamp_url_found = False,
                 bandcamp_url_searched = False,
                 bandcamp_url = []\<rparr>)) \<and>
     (\<forall>s' n. register_albums s c (before @ t # after) = Inr (s', n) \<longrightarrow>
        artist_names t \<noteq> [] \<and>
        map_of (albums s') (album_name t @ '':'' @ album_id t) =
          Some \<lparr>key = album_name t @ '':'' @ album_id t,
                id_album = album_id t,
                name = album_name t,
                artists = artist_names t,
                purchased = False,
                bandcamp_search_term = hd (artist_names t) @ '' '' @ album_name t,
                bandcamp_url_found = False,
                bandcamp_url_searched = False,
                bandcamp_url = []\<rparr>)"
proof -
  have returned: "artist_names t \<noteq> [] \<and>
      map_of (albums s') (album_name t @ '':'' @ album_id t) =
        Some \<lparr>key = album_name t @ '':'' @ album_id t,
              id_album = album_id t,
              name = album_name t,
              artists = artist_names t,
              purchased = False,
              bandcamp_search_term = hd (artist_names t) @ '' '' @ album_name t,
              bandcamp_url_found = False,
              bandcamp_url_searched = False,
              bandcamp_url = []\<rparr>"
    if "register_albums s c (before @ t # after) = Inr (s', n)" for s' n
    using register_albums_record [OF that assms] .
  show ?thesis
  proof (intro conjI impI allI)
    assume "\<forall>b \<in> set (before @ t # after).
        map_of (albums s) (album_key_of b) = None \<longrightarrow> artist_names b \<noteq> []"
    from register_albums_returns [OF this, of c]
    obtain s' n where "register_albums s c (before @ t # after) = Inr (s', n)" by blast
    with returned [OF this] show "\<exists>s' n.
        register_albums s c (before @ t # after) = Inr (s', n) \<and>
        map_of (albums s') (album_name t @ '':'' @ album_id t) =
          Some \<lparr>key = album_name t @ '':'' @ album_id t,
                id_album = album_id t,
                name = album_name t,
                artists = artist_names t,
                purchased = False,
                bandcamp_search_term = hd (artist_names t) @ '' '' @ album_name t,
                bandcamp_url_found = False,
                bandcamp_url_searched = False,
                bandcamp_url = []\<rparr>"
      by blast
  next
    fix s' n
    assume "register_albums s c (before @ t # after) = Inr (s', n)"
    from returned [OF this] show "artist_names t \<noteq> []" by blast
  next
    fix s' n
    assume "register_albums s c (before @ t # after) = Inr (s', n)"
    from returned [OF this]
    show "map_of (albums s') (album_name t @ '':'' @ album_id t) =
        Some \<lparr>key = album_name t @ '':'' @ album_id t,
              id_album = album_id t,
              name = album_name t,
              artists = artist_names t,
              purchased = False,
              bandcamp_search_term = hd (artist_names t) @ '' '' @ album_name t,
              bandcamp_url_found = False,
              bandcamp_url_searched = False,
              bandcamp_url = []\<rparr>"
      by blast
  qed
qed

theorem import_creates_album_witness:
  "map_of (albums new_state) (album_key_of demo_track) = None \<and>
   album_key_of demo_track \<notin> album_key_of ` set [] \<and>
   artist_names demo_track \<noteq> [] \<and>
   register_albums new_state 0 ([] @ demo_track # []) = Inr (demo_imported, 1) \<and>
   map_of (albums demo_imported) ''X:1'' =
     Some \<lparr>key = ''X:1'', id_album = ''1'', name = ''X'', artists = [''A''],
           purchased = False, bandcamp_search_term = ''A X'',
           bandcamp_url_found = False, bandcamp_url_searched = False,
           bandcamp_url = []\<rparr> \<and>
   map_of (albums demo_resolved) (album_key_of second_track) = None \<and>
   album_key_of second_track \<notin> album_key_of ` set [demo_track] \<and>
   (\<exists>s' n. register_albums demo_resolved 0 ([demo_track] @ second_track # [demo_track])
              = Inr (s', n) \<and>
      map_of (albums s') ''Y:2'' =
        Some \<lparr>key = ''Y:2'', id_album = ''2'', name = ''Y'', artists = [''B'', ''C''],
              purchased = False, bandcamp_search_term = ''B Y'',
              bandcamp_url_found = False, bandcamp_url_searched = False,
              bandcamp_url = []\<rparr>)"
proof -
  have absent: "map_of (albums new_state) (album_key_of demo_track) = None"
    by (simp add: new_state_def)
  have earliest: "album_key_of demo_track \<notin> album_key_of ` set []" by simp
  have named: "\<forall>b \<in> set ([] @ demo_track # []).
      map_of (albums new_state) (album_key_of b) = None \<longrightarrow> artist_names b \<noteq> []"
    by (simp add: demo_track_def)
  have run: "register_albums new_state 0 ([] @ demo_track # []) = Inr (demo_imported, 1)"
    by (simp add: new_state_def demo_track_def demo_imported_def demo_album_def album_key_of_def)
  note scenario = import_creates_album [OF absent earliest, of "[]" 0]
  from scenario named obtain s' n
    where "register_albums new_state 0 ([] @ demo_track # []) = Inr (s', n)"
      and "map_of (albums s') (album_name demo_track @ '':'' @ album_id demo_track) =
        Some \<lparr>key = album_name demo_track @ '':'' @ album_id demo_track,
              id_album = album_id demo_track,
              name = album_name demo_track,
              artists = artist_names demo_track,
              purchased = False,
              bandcamp_search_term = hd (artist_names demo_track) @ '' '' @ album_name demo_track,
              bandcamp_url_found = False,
              bandcamp_url_searched = False,
              bandcamp_url = []\<rparr>"
    by blast
  with run absent earliest have part1:
    "map_of (albums new_state) (album_key_of demo_track) = None \<and>
     album_key_of demo_track \<notin> album_key_of ` set [] \<and>
     artist_names demo_track \<noteq> [] \<and>
     register_albums new_state 0 ([] @ demo_track # []) = Inr (demo_imported, 1) \<and>
     map_of (albums demo_imported) ''X:1'' =
       Some \<lparr>key = ''X:1'', id_album = ''1'', name = ''X'', artists = [''A''],
             purchased = False, bandcamp_search_term = ''A X'',
             bandcamp_url_found = False, bandcamp_url_searched = False,
             bandcamp_url = []\<rparr>"
    by (simp add: demo_track_def)
  have absent2: "map_of (albums demo_resolved) (album_key_of second_track) = None"
    by (simp add: demo_resolved_def second_track_def album_key_of_def)
  have earliest2: "album_key_of second_track \<notin> album_key_of ` set [demo_track]"
    by (simp add: second_track_def demo_track_def album_key_of_def)
  have named2: "\<forall>b \<in> set ([demo_track] @ second_track # [demo_track]).
      map_of (albums demo_resolved) (album_key_of b) = None \<longrightarrow> artist_names b \<noteq> []"
    by (simp add: demo_track_def second_track_def)
  note later = import_creates_album [OF absent2 earliest2, of "[demo_track]" 0]
  from later named2 have part2:
    "\<exists>s' n. register_albums demo_resolved 0 ([demo_track] @ second_track # [demo_track])
              = Inr (s', n) \<and>
      map_of (albums s') ''Y:2'' =
        Some \<lparr>key = ''Y:2'', id_album = ''2'', name = ''Y'', artists = [''B'', ''C''],
              purchased = False, bandcamp_search_term = ''B Y'',
              bandcamp_url_found = False, bandcamp_url_searched = False,
              bandcamp_url = []\<rparr>"
    by (simp add: second_track_def)
  from part1 absent2 earliest2 part2 show ?thesis by blast
qed

text \<open>
  Claim C10. A track without artists whose album key is not in the store when the
  loop reaches it makes the importer raise \<^verbatim>\<open>IndexError\<close>, and the store at that
  moment has no album under that key.
\<close>

theorem import_fails_without_artist:
  assumes "artist_names t = []"
    and "map_of (albums s) (album_key_of t) = None"
    and "album_key_of t \<notin> album_key_of ` set before"
  shows "\<exists>s1. register_albums s c (before @ t # after) = Inl (IndexError, s1) \<and>
              map_of (albums s1) (album_key_of t) = None"
  using assms
proof (induction before arbitrary: s c)
  case Nil
  then show ?case by simp
next
  case (Cons b before)
  from Cons.prems(3) have neq: "album_key_of t \<noteq> album_key_of b"
    and later: "album_key_of t \<notin> album_key_of ` set before" by auto
  show ?case
  proof (cases "map_of (albums s) (album_key_of b) \<noteq> None")
    case True
    with Cons.IH [OF Cons.prems(1,2) later, of c] show ?thesis by simp
  next
    case False
    show ?thesis
    proof (cases "artist_names b")
      case Nil
      with False Cons.prems(2) show ?thesis by simp
    next
      case (Cons first_artist others)
      let ?a = "\<lparr>key = album_key_of b, id_album = album_id b, name = album_name b,
                 artists = artist_names b, purchased = False,
                 bandcamp_search_term = first_artist @ '' '' @ album_name b,
                 bandcamp_url_found = False, bandcamp_url_searched = False,
                 bandcamp_url = []\<rparr>"
      let ?s = "s\<lparr>albums := AList.update (album_key_of b) ?a (albums s)\<rparr>"
      from Cons.prems(2) neq have "map_of (albums ?s) (album_key_of t) = None"
        by (simp add: update_conv')
      from Cons.IH [OF Cons.prems(1) this later, of "c + 1"] False Cons
      show ?thesis by simp
    qed
  qed
qed

theorem import_fails_without_artist_witness:
  "artist_names anonymous_track = [] \<and>
   map_of (albums new_state) (album_key_of anonymous_track) = None \<and>
   album_key_of anonymous_track \<notin> album_key_of ` set [demo_track] \<and>
   register_albums new_state 0 ([demo_track] @ anonymous_track # [demo_track])
     = Inl (IndexError, demo_imported) \<and>
   map_of (albums demo_imported) (album_key_of anonymous_track) = None"
proof -
  have none: "artist_names anonymous_track = []"
    by (simp add: anonymous_track_def)
  have absent: "map_of (albums new_state) (album_key_of anonymous_track) = None"
    by (simp add: new_state_def)
  have first: "album_key_of anonymous_track \<notin> album_key_of ` set [demo_track]"
    by (simp add: album_key_of_def anonymous_track_def demo_track_def)
  have run: "register_albums new_state 0 ([demo_track] @ anonymous_track # [demo_track])
      = Inl (IndexError, demo_imported)"
    by (simp add: new_state_def demo_track_def anonymous_track_def demo_imported_def
        demo_album_def album_key_of_def)
  from import_fails_without_artist [OF none absent first, of 0 "[demo_track]"] none absent first run
  show ?thesis by simp
qed

section \<open>Invariants of the reachable states\<close>

lemma well_formed_map_of:
  "well_formed s \<longleftrightarrow>
     distinct (map fst (albums s)) \<and>
     distinct (map fst (bandcamp_url_to_album_key s)) \<and>
     (\<forall>k a. map_of (albums s) k = Some a \<longrightarrow> album_ok k a) \<and>
     (\<forall>url k. map_of (bandcamp_url_to_album_key s) url = Some k \<longrightarrow> index_entry_ok s url k)"
proof -
  have a: "distinct (map fst (albums s)) \<Longrightarrow>
      (\<forall>(k, a) \<in> set (albums s). album_ok k a) =
      (\<forall>k a. map_of (albums s) k = Some a \<longrightarrow> album_ok k a)"
    by (auto simp: map_of_eq_Some_iff)
  have b: "distinct (map fst (bandcamp_url_to_album_key s)) \<Longrightarrow>
      (\<forall>(url, k) \<in> set (bandcamp_url_to_album_key s). index_entry_ok s url k) =
      (\<forall>url k. map_of (bandcamp_url_to_album_key s) url = Some k \<longrightarrow> index_entry_ok s url k)"
    by (auto simp: map_of_eq_Some_iff)
  from a b show ?thesis unfolding well_formed_def by blast
qed

lemma well_formed_new_state: "well_formed new_state"
  by (simp add: well_formed_def new_state_def)

lemma well_formedD:
  assumes "well_formed s"
  shows "distinct (map fst (albums s))"
    and "distinct (map fst (bandcamp_url_to_album_key s))"
    and "\<And>k a. map_of (albums s) k = Some a \<Longrightarrow> album_ok k a"
    and "\<And>url k. map_of (bandcamp_url_to_album_key s) url = Some k \<Longrightarrow> index_entry_ok s url k"
  using assms unfolding well_formed_map_of by blast+

lemma well_formedI:
  assumes "distinct (map fst (albums s))"
    and "distinct (map fst (bandcamp_url_to_album_key s))"
    and "\<And>k a. map_of (albums s) k = Some a \<Longrightarrow> album_ok k a"
    and "\<And>url k. map_of (bandcamp_url_to_album_key s) url = Some k \<Longrightarrow> index_entry_ok s url k"
  shows "well_formed s"
  using assms unfolding well_formed_map_of by blast

lemma well_formed_add_album:
  assumes "well_formed s" and "map_of (albums s) k = None" and "album_ok k a"
  shows "well_formed (s\<lparr>albums := AList.update k a (albums s)\<rparr>)"
proof (rule well_formedI)
  let ?s = "s\<lparr>albums := AList.update k a (albums s)\<rparr>"
  show "distinct (map fst (albums ?s))"
    using well_formedD(1) [OF assms(1)] by (simp add: distinct_update)
  show "distinct (map fst (bandcamp_url_to_album_key ?s))"
    using well_formedD(2) [OF assms(1)] by simp
  show "album_ok k' a'" if "map_of (albums ?s) k' = Some a'" for k' a'
    using that assms(3) well_formedD(3) [OF assms(1), of k' a']
    by (cases "k' = k") (simp_all add: update_conv')
  show "index_entry_ok ?s url k'"
    if "map_of (bandcamp_url_to_album_key ?s) url = Some k'" for url k'
  proof -
    from that have "index_entry_ok s url k'"
      using well_formedD(4) [OF assms(1), of url k'] by simp
    then obtain b where b: "map_of (albums s) k' = Some b" "bandcamp_url b = url"
      "bandcamp_url_searched b"
      unfolding index_entry_ok_def by blast
    with assms(2) have "k' \<noteq> k" by auto
    with b show ?thesis unfolding index_entry_ok_def by (simp add: update_conv')
  qed
qed

lemma well_formed_record_search:
  assumes "well_formed s" and "map_of (albums s) k = Some a"
    and "\<not> bandcamp_url_searched a"
  shows "well_formed
    (s\<lparr>albums := AList.update k (record_search a url) (albums s),
       bandcamp_url_to_album_key :=
         (if url \<noteq> [] then AList.update url k (bandcamp_url_to_album_key s)
          else bandcamp_url_to_album_key s)\<rparr>)"
proof (rule well_formedI)
  let ?s = "s\<lparr>albums := AList.update k (record_search a url) (albums s),
       bandcamp_url_to_album_key :=
         (if url \<noteq> [] then AList.update url k (bandcamp_url_to_album_key s)
          else bandcamp_url_to_album_key s)\<rparr>"
  from well_formedD(3) [OF assms(1,2)] have ok: "album_ok k a" .
  show "distinct (map fst (albums ?s))"
    using well_formedD(1) [OF assms(1)] by (simp add: distinct_update)
  show "distinct (map fst (bandcamp_url_to_album_key ?s))"
    using well_formedD(2) [OF assms(1)] by (simp add: distinct_update)
  show "album_ok k' a'" if "map_of (albums ?s) k' = Some a'" for k' a'
  proof (cases "k' = k")
    case True
    with that have "a' = record_search a url" by (simp add: update_conv')
    with ok True show ?thesis by (simp add: album_ok_def record_search_def)
  next
    case False
    with that have "map_of (albums s) k' = Some a'" by (simp add: update_conv')
    from well_formedD(3) [OF assms(1) this] show ?thesis .
  qed
  show "index_entry_ok ?s u k'"
    if "map_of (bandcamp_url_to_album_key ?s) u = Some k'" for u k'
  proof (cases "url \<noteq> [] \<and> u = url")
    case True
    with that have "k' = k" by (simp add: update_conv')
    with True show ?thesis
      unfolding index_entry_ok_def by (simp add: update_conv' record_search_def)
  next
    case False
    with that have "map_of (bandcamp_url_to_album_key s) u = Some k'"
      by (auto simp: update_conv' split: if_splits)
    from well_formedD(4) [OF assms(1) this]
    obtain b where b: "map_of (albums s) k' = Some b" "bandcamp_url b = u"
      "bandcamp_url_searched b"
      unfolding index_entry_ok_def by blast
    with assms(2,3) have "k' \<noteq> k" by auto
    with b show ?thesis unfolding index_entry_ok_def by (simp add: update_conv')
  qed
qed

lemma well_formed_mark_purchased:
  assumes "well_formed s" and "map_of (bandcamp_url_to_album_key s) url = Some k"
    and "map_of (albums s) k = Some a"
  shows "well_formed (s\<lparr>albums := AList.update k (a\<lparr>purchased := True\<rparr>) (albums s)\<rparr>)"
proof (rule well_formedI)
  let ?s = "s\<lparr>albums := AList.update k (a\<lparr>purchased := True\<rparr>) (albums s)\<rparr>"
  from well_formedD(4) [OF assms(1,2)] assms(3) have searched: "bandcamp_url_searched a"
    unfolding index_entry_ok_def by auto
  from well_formedD(3) [OF assms(1,3)] have ok: "album_ok k a" .
  show "distinct (map fst (albums ?s))"
    using well_formedD(1) [OF assms(1)] by (simp add: distinct_update)
  show "distinct (map fst (bandcamp_url_to_album_key ?s))"
    using well_formedD(2) [OF assms(1)] by simp
  show "album_ok k' a'" if "map_of (albums ?s) k' = Some a'" for k' a'
  proof (cases "k' = k")
    case True
    with that have "a' = a\<lparr>purchased := True\<rparr>" by (simp add: update_conv')
    with ok searched True show ?thesis by (simp add: album_ok_def)
  next
    case False
    with that have "map_of (albums s) k' = Some a'" by (simp add: update_conv')
    from well_formedD(3) [OF assms(1) this] show ?thesis .
  qed
  show "index_entry_ok ?s u k'"
    if "map_of (bandcamp_url_to_album_key ?s) u = Some k'" for u k'
  proof -
    from that have "map_of (bandcamp_url_to_album_key s) u = Some k'" by simp
    from well_formedD(4) [OF assms(1) this]
    obtain b where b: "map_of (albums s) k' = Some b" "bandcamp_url b = u"
      "bandcamp_url_searched b"
      unfolding index_entry_ok_def by blast
    show ?thesis
    proof (cases "k' = k")
      case True
      with b assms(3) show ?thesis unfolding index_entry_ok_def by (simp add: update_conv')
    next
      case False
      with b show ?thesis unfolding index_entry_ok_def by (simp add: update_conv')
    qed
  qed
qed

lemma well_formed_register_albums:
  "well_formed s \<Longrightarrow> well_formed (final_state (register_albums s c playlist))"
proof (induction s c playlist rule: register_albums.induct)
  case (1 s c)
  then show ?case by simp
next
  case (2 s c t playlist)
  show ?case
  proof (cases "map_of (albums s) (album_key_of t) \<noteq> None")
    case True
    with 2 show ?thesis by simp
  next
    case False
    show ?thesis
    proof (cases "artist_names t")
      case Nil
      with False "2.prems" show ?thesis by simp
    next
      case (Cons first_artist others)
      let ?a = "\<lparr>key = album_key_of t, id_album = album_id t, name = album_name t,
                 artists = artist_names t, purchased = False,
                 bandcamp_search_term = first_artist @ '' '' @ album_name t,
                 bandcamp_url_found = False, bandcamp_url_searched = False,
                 bandcamp_url = []\<rparr>"
      have "album_ok (album_key_of t) ?a" by (simp add: album_ok_def)
      with "2.prems" False
      have "well_formed (s\<lparr>albums := AList.update (album_key_of t) ?a (albums s)\<rparr>)"
        by (intro well_formed_add_album) simp_all
      from "2.IH"(2) [OF False Cons this] False Cons show ?thesis by simp
    qed
  qed
qed

lemma well_formed_refresh_loop:
  "well_formed s \<Longrightarrow> well_formed (final_state (refresh_loop s c urls))"
proof (induction s c urls rule: refresh_loop.induct)
  case (1 s c)
  then show ?case by simp
next
  case (2 s c url urls)
  show ?case
  proof (cases "map_of (bandcamp_url_to_album_key s) url")
    case None
    with 2 show ?thesis by simp
  next
    case (Some k)
    note idx = this
    show ?thesis
    proof (cases "map_of (albums s) k")
      case None
      with idx "2.prems" show ?thesis by simp
    next
      case (Some a)
      show ?thesis
      proof (cases "purchased a")
        case True
        with idx Some "2.IH"(3) "2.prems" show ?thesis by simp
      next
        case False
        from well_formed_mark_purchased [OF "2.prems" idx Some]
        have "well_formed (s\<lparr>albums := AList.update k (a\<lparr>purchased := True\<rparr>) (albums s)\<rparr>)" .
        from "2.IH"(2) [OF idx Some False this] idx Some False show ?thesis by simp
      qed
    qed
  qed
qed

lemma search_albums_cases:
  assumes "well_formed s"
  obtains
    (skip) "map_of (albums s) k = None \<or>
            (\<exists>a. map_of (albums s) k = Some a \<and> bandcamp_url_searched a)"
      "search_albums search i s (k # ks) = search_albums search i s ks"
  | (no_artist) a where "map_of (albums s) k = Some a" "\<not> bandcamp_url_searched a"
      "search_albums search i s (k # ks) = ([], Inl (IndexError, s))"
  | (failed) a artist e where "map_of (albums s) k = Some a" "\<not> bandcamp_url_searched a"
      "search_albums search i s (k # ks) =
         ([\<lparr>call_key = k, call_artist = artist, call_album = name a, call_result = Inl e\<rparr>],
          Inl (e, s))"
  | (searched) a artist url where "map_of (albums s) k = Some a" "\<not> bandcamp_url_searched a"
      "search_albums search i s (k # ks) =
         apfst ((#) \<lparr>call_key = k, call_artist = artist, call_album = name a,
                     call_result = Inr url\<rparr>)
           (search_albums search (Suc i)
              (s\<lparr>albums := AList.update k (record_search a url) (albums s),
                 bandcamp_url_to_album_key :=
                   (if url \<noteq> [] then AList.update url k (bandcamp_url_to_album_key s)
                    else bandcamp_url_to_album_key s)\<rparr>)
              ks)"
proof (cases "map_of (albums s) k")
  case None
  then show ?thesis by (intro skip) simp_all
next
  case (Some a)
  from well_formedD(3) [OF assms Some] have key: "key a = k" by (simp add: album_ok_def)
  show ?thesis
  proof (cases "bandcamp_url_searched a")
    case True
    with Some show ?thesis by (intro skip) simp_all
  next
    case False
    show ?thesis
    proof (cases "artists a")
      case Nil
      with Some False show ?thesis by (intro no_artist [of a]) simp_all
    next
      case (Cons artist others)
      show ?thesis
      proof (cases "search i artist (name a)")
        case (Inl e)
        with Some False Cons show ?thesis by (intro failed [of a artist e]) simp_all
      next
        case (Inr url)
        with Some False Cons key show ?thesis
          by (intro searched [of a artist url]) (simp_all add: Let_def)
      qed
    qed
  qed
qed

lemma well_formed_search_albums:
  "well_formed s \<Longrightarrow> well_formed (final_state (snd (search_albums search i s ks)))"
proof (induction ks arbitrary: i s)
  case Nil
  then show ?case by simp
next
  case (Cons k ks)
  from Cons.prems show ?case
  proof (cases rule: search_albums_cases
      [where k = k and search = search and i = i and ks = ks])
    case skip
    with Cons show ?thesis by simp
  next
    case (no_artist a)
    with Cons.prems show ?thesis by simp
  next
    case (failed a artist e)
    with Cons.prems show ?thesis by simp
  next
    case (searched a artist url)
    from well_formed_record_search [OF Cons.prems searched(1,2), of url]
    have "well_formed (s\<lparr>albums := AList.update k (record_search a url) (albums s),
                 bandcamp_url_to_album_key :=
                   (if url \<noteq> [] then AList.update url k (bandcamp_url_to_album_key s)
                    else bandcamp_url_to_album_key s)\<rparr>)" .
    from Cons.IH [OF this, of "Suc i"] searched(3) show ?thesis by simp
  qed
qed

lemma search_albums_skips:
  assumes "well_formed s" and "map_of (albums s) k = Some a" and "bandcamp_url_searched a"
  shows "map_of (albums (final_state (snd (search_albums search i s ks)))) k = Some a \<and>
         k \<notin> call_key ` set (fst (search_albums search i s ks))"
  using assms
proof (induction ks arbitrary: i s)
  case Nil
  then show ?case by simp
next
  case (Cons k0 ks)
  from Cons.prems(1) show ?case
  proof (cases rule: search_albums_cases
      [where k = k0 and search = search and i = i and ks = ks])
    case skip
    with Cons show ?thesis by simp
  next
    case (no_artist a0)
    with Cons.prems show ?thesis by simp
  next
    case (failed a0 artist e)
    with Cons.prems have "k0 \<noteq> k" by auto
    with failed Cons.prems show ?thesis by simp
  next
    case (searched a0 artist url)
    let ?s = "s\<lparr>albums := AList.update k0 (record_search a0 url) (albums s),
                 bandcamp_url_to_album_key :=
                   (if url \<noteq> [] then AList.update url k0 (bandcamp_url_to_album_key s)
                    else bandcamp_url_to_album_key s)\<rparr>"
    from searched Cons.prems have neq: "k0 \<noteq> k" by auto
    from well_formed_record_search [OF Cons.prems(1) searched(1,2), of url]
    have wf: "well_formed ?s" .
    from neq Cons.prems(2) have "map_of (albums ?s) k = Some a" by (simp add: update_conv')
    from Cons.IH [OF wf this Cons.prems(3), of "Suc i"] searched(3) neq
    show ?thesis by simp
  qed
qed

lemma search_albums_records:
  assumes "well_formed s" and "map_of (albums s) k = Some a"
    and "call \<in> set (fst (search_albums search i s ks))"
    and "call_key call = k" and "call_result call = Inr url"
  shows "\<not> bandcamp_url_searched a \<and>
         map_of (albums (final_state (snd (search_albums search i s ks)))) k =
           Some (record_search a url)"
  using assms
proof (induction ks arbitrary: i s)
  case Nil
  then show ?case by simp
next
  case (Cons k0 ks)
  from Cons.prems(1) show ?case
  proof (cases rule: search_albums_cases
      [where k = k0 and search = search and i = i and ks = ks])
    case skip
    with Cons show ?thesis by simp
  next
    case (no_artist a0)
    with Cons.prems show ?thesis by simp
  next
    case (failed a0 artist e)
    with Cons.prems show ?thesis by auto
  next
    case (searched a0 artist url0)
    let ?s = "s\<lparr>albums := AList.update k0 (record_search a0 url0) (albums s),
                 bandcamp_url_to_album_key :=
                   (if url0 \<noteq> [] then AList.update url0 k0 (bandcamp_url_to_album_key s)
                    else bandcamp_url_to_album_key s)\<rparr>"
    let ?call = "\<lparr>call_key = k0, call_artist = artist, call_album = name a0,
                   call_result = Inr url0\<rparr>"
    from well_formed_record_search [OF Cons.prems(1) searched(1,2), of url0]
    have wf: "well_formed ?s" .
    from Cons.prems(3) searched(3)
    consider "call = ?call" | "call \<in> set (fst (search_albums search (Suc i) ?s ks))"
      by auto
    then show ?thesis
    proof cases
      case 1
      with Cons.prems(4,5) have eq: "k0 = k" "url0 = url" by simp_all
      with searched(1) Cons.prems(2) have a: "a0 = a" by simp
      have "map_of (albums ?s) k = Some (record_search a url)"
        using eq a by (simp add: update_conv')
      moreover have "bandcamp_url_searched (record_search a url)"
        by (simp add: record_search_def)
      ultimately have "map_of (albums (final_state (snd (search_albums search (Suc i) ?s ks)))) k
          = Some (record_search a url)"
        using search_albums_skips [OF wf] by blast
      with searched a show ?thesis by simp
    next
      case 2
      show ?thesis
      proof (cases "k0 = k")
        case True
        then have "map_of (albums ?s) k = Some (record_search a0 url0)"
          by (simp add: update_conv')
        moreover have "bandcamp_url_searched (record_search a0 url0)"
          by (simp add: record_search_def)
        ultimately have "k \<notin> call_key ` set (fst (search_albums search (Suc i) ?s ks))"
          using search_albums_skips [OF wf] by blast
        with 2 Cons.prems(4) show ?thesis by auto
      next
        case False
        with Cons.prems(2) have "map_of (albums ?s) k = Some a" by (simp add: update_conv')
        from Cons.IH [OF wf this 2 Cons.prems(4,5)] searched(3) show ?thesis by simp
      qed
    qed
  qed
qed

lemma evolves_well_formed: "evolves s s' \<Longrightarrow> well_formed s \<Longrightarrow> well_formed s'"
proof (induction rule: evolves.induct)
  case (same s)
  then show ?case .
next
  case (imported s s' playlist)
  then show ?case by (simp add: well_formed_register_albums)
next
  case (resolved s s' search)
  then show ?case by (simp add: resolve_albums_def well_formed_search_albums)
next
  case (reconciled s s' purchases)
  then show ?case by (simp add: bandcamp_refresh_purchased_def well_formed_refresh_loop)
qed

lemma reachable_well_formed: "reachable s \<Longrightarrow> well_formed s"
  unfolding reachable_def using evolves_well_formed [OF _ well_formed_new_state] .

lemma evolves_trans: "evolves s2 s3 \<Longrightarrow> evolves s1 s2 \<Longrightarrow> evolves s1 s3"
  by (induction rule: evolves.induct) (auto intro: evolves.intros)

lemma reachable_evolves: "reachable s \<Longrightarrow> evolves s s' \<Longrightarrow> reachable s'"
  unfolding reachable_def by (rule evolves_trans)

lemma same_but_purchased_refl: "same_but_purchased a a"
  by (simp add: same_but_purchased_def)

lemma same_but_purchased_trans:
  "same_but_purchased a b \<Longrightarrow> same_but_purchased b c \<Longrightarrow> same_but_purchased a c"
  unfolding same_but_purchased_def by (cases a; cases b; cases c) auto

lemma entry_frame_map_of:
  "list_all2 entry_frame al al' \<Longrightarrow> map_of al k = Some a \<Longrightarrow>
   \<exists>a'. map_of al' k = Some a' \<and> same_but_purchased a a'"
proof (induction rule: list_all2_induct)
  case Nil
  then show ?case by simp
next
  case (Cons p al p' al')
  then show ?case
    by (cases p; cases p') (auto simp: entry_frame_def split: if_splits)
qed

lemma evolves_keeps_searched:
  "evolves s s' \<Longrightarrow> well_formed s \<Longrightarrow> map_of (albums s) k = Some a \<Longrightarrow>
   bandcamp_url_searched a \<Longrightarrow>
   \<exists>a'. map_of (albums s') k = Some a' \<and> same_but_purchased a a'"
proof (induction rule: evolves.induct)
  case (same s)
  then show ?case by (auto intro: same_but_purchased_refl)
next
  case (imported s s' playlist)
  then obtain a' where "map_of (albums s') k = Some a'" "same_but_purchased a a'" by blast
  with register_albums_keeps [of s' k a' 0 playlist] show ?case by blast
next
  case (resolved s s' search)
  then obtain a' where a': "map_of (albums s') k = Some a'" "same_but_purchased a a'" by blast
  from a'(2) resolved.prems(3) have "bandcamp_url_searched a'"
    unfolding same_but_purchased_def by (cases a; cases a') auto
  moreover from resolved.hyps resolved.prems(1) have "well_formed s'"
    by (rule evolves_well_formed)
  ultimately show ?case
    using search_albums_skips [of s' k a' search 0 "map fst (albums s')"] a'
    by (auto simp: resolve_albums_def)
next
  case (reconciled s s' purchases)
  then obtain a' where a': "map_of (albums s') k = Some a'" "same_but_purchased a a'" by blast
  from entry_frame_map_of [OF refresh_loop_frame a'(1), of 0 purchases]
  obtain a'' where "map_of (albums (final_state (bandcamp_refresh_purchased s' purchases))) k
      = Some a''" "same_but_purchased a' a''"
    by (auto simp: bandcamp_refresh_purchased_def)
  with a'(2) show ?case by (blast intro: same_but_purchased_trans)
qed

lemma reachable_demo_imported: "reachable demo_imported"
proof -
  have "final_state (register_albums new_state 0 [demo_track]) = demo_imported"
    by (simp add: new_state_def demo_track_def demo_imported_def demo_album_def album_key_of_def)
  with evolves.imported [OF evolves.same, of new_state "[demo_track]"] show ?thesis
    by (simp add: reachable_def)
qed

lemma resolve_demo_imported:
  "resolve_albums demo_search demo_imported =
     ([\<lparr>call_key = ''X:1'', call_artist = ''A'', call_album = ''X'',
        call_result = Inr demo_url\<rparr>],
      Inr (demo_resolved, ()))"
  by (simp add: resolve_albums_def demo_search_def demo_imported_def demo_resolved_def
      demo_album_def demo_url_def record_search_def)

lemma reachable_demo_resolved: "reachable demo_resolved"
  using reachable_evolves [OF reachable_demo_imported
      evolves.resolved [OF evolves.same, of demo_imported demo_search]]
  by (simp add: resolve_demo_imported)

lemma refresh_demo_resolved:
  "bandcamp_refresh_purchased demo_resolved [demo_url] = Inr (demo_reconciled, 1)"
  by (simp add: bandcamp_refresh_purchased_def demo_resolved_def demo_reconciled_def
      demo_url_def demo_album_def)

lemma reachable_demo_reconciled: "reachable demo_reconciled"
  using reachable_evolves [OF reachable_demo_resolved
      evolves.reconciled [OF evolves.same, of demo_resolved "[demo_url]"]]
  by (simp add: refresh_demo_resolved)

lemma resolve_demo_reconciled:
  "resolve_albums search demo_reconciled = ([], Inr (demo_reconciled, ()))"
  by (simp add: resolve_albums_def demo_reconciled_def demo_album_def)

lemma resolve_empty_demo_imported:
  "resolve_albums empty_search demo_imported =
     ([\<lparr>call_key = ''X:1'', call_artist = ''A'', call_album = ''X'', call_result = Inr []\<rparr>],
      Inr (demo_unlisted, ()))"
  by (simp add: resolve_albums_def empty_search_def demo_imported_def demo_unlisted_def
      demo_album_def record_search_def)

lemma resolve_demo_unlisted:
  "resolve_albums search demo_unlisted = ([], Inr (demo_unlisted, ()))"
  by (simp add: resolve_albums_def demo_unlisted_def demo_album_def)

text \<open>
  Claim C2. Reverse-index consistency holds in every reachable state, that is, it
  holds in the new state and the importer, the resolver and the reconciler keep it:
  for every pair of a URL and a key in \<^verbatim>\<open>bandcamp_url_to_album_key\<close>, \<^verbatim>\<open>albums\<close> has an
  album under that key, and its \<open>bandcamp_url\<close> is that URL.
\<close>

theorem reverse_index_consistent:
  assumes "reachable s" and "(url, k) \<in> set (bandcamp_url_to_album_key s)"
  shows "\<exists>a. map_of (albums s) k = Some a \<and> bandcamp_url a = url"
proof -
  from assms(1) have "well_formed s" by (rule reachable_well_formed)
  with assms(2) have "index_entry_ok s url k"
    unfolding well_formed_def by blast
  then show ?thesis unfolding index_entry_ok_def by blast
qed

theorem reverse_index_consistent_witness:
  "reachable demo_reconciled \<and>
   (demo_url, ''X:1'') \<in> set (bandcamp_url_to_album_key demo_reconciled) \<and>
   (\<exists>a. map_of (albums demo_reconciled) ''X:1'' = Some a \<and> bandcamp_url a = demo_url)"
proof -
  have entry: "(demo_url, ''X:1'') \<in> set (bandcamp_url_to_album_key demo_reconciled)"
    by (simp add: demo_reconciled_def)
  from reverse_index_consistent [OF reachable_demo_reconciled entry]
    reachable_demo_reconciled entry
  show ?thesis by simp
qed

text \<open>
  Claim C3. In every reachable state, an album whose \<open>bandcamp_url_searched\<close> is
  false has \<open>bandcamp_url_found\<close> false and \<open>purchased\<close> false: the importer creates
  it so, and the resolver and the reconciler keep it so.
\<close>

theorem unsearched_album_flags:
  assumes "reachable s" and "(k, a) \<in> set (albums s)" and "\<not> bandcamp_url_searched a"
  shows "\<not> bandcamp_url_found a \<and> \<not> purchased a"
proof -
  from assms(1) have "well_formed s" by (rule reachable_well_formed)
  with assms(2) have "album_ok k a"
    unfolding well_formed_def by blast
  with assms(3) show ?thesis by (simp add: album_ok_def)
qed

theorem unsearched_album_flags_witness:
  "reachable demo_imported \<and>
   (''X:1'', demo_album) \<in> set (albums demo_imported) \<and>
   \<not> bandcamp_url_searched demo_album \<and>
   \<not> bandcamp_url_found demo_album \<and> \<not> purchased demo_album"
proof -
  have entry: "(''X:1'', demo_album) \<in> set (albums demo_imported)"
    by (simp add: demo_imported_def)
  have unsearched: "\<not> bandcamp_url_searched demo_album"
    by (simp add: demo_album_def)
  from unsearched_album_flags [OF reachable_demo_imported entry unsearched]
    reachable_demo_imported entry unsearched
  show ?thesis by simp
qed

text \<open>
  Claim C6. Take an album of a reachable state. If its \<open>bandcamp_url_searched\<close> is
  true, then in every state the store evolves to, the album is still there, unchanged
  but for \<open>purchased\<close>, and a resolver pass on that state, with any search service,
  makes no search call for it and leaves it as it is. If a resolver pass makes a call
  for the album and the call returns no URL, the album was unsearched, the pass sets
  \<open>bandcamp_url_searched\<close> to true and leaves \<open>bandcamp_url_found\<close> false and
  \<open>bandcamp_url\<close> empty, and no resolver pass on a state the store evolves to from
  there makes a call for it again.
\<close>

theorem searched_album_is_final:
  assumes "reachable s" and "map_of (albums s) k = Some a"
  shows
    "(bandcamp_url_searched a \<and> evolves s later \<longrightarrow>
        (\<exists>a'. map_of (albums later) k = Some a' \<and> same_but_purchased a a') \<and>
        k \<notin> call_key ` set (fst (resolve_albums search later)) \<and>
        map_of (albums (final_state (snd (resolve_albums search later)))) k =
          map_of (albums later) k) \<and>
     (\<forall>call \<in> set (fst (resolve_albums search s)).
        call_key call = k \<and> call_result call = Inr [] \<and>
        evolves (final_state (snd (resolve_albums search s))) later \<longrightarrow>
          \<not> bandcamp_url_searched a \<and> \<not> bandcamp_url_found a \<and> bandcamp_url a = [] \<and>
          map_of (albums (final_state (snd (resolve_albums search s)))) k =
            Some (a\<lparr>bandcamp_url_searched := True\<rparr>) \<and>
          (\<exists>a'. map_of (albums later) k = Some a' \<and>
                same_but_purchased (a\<lparr>bandcamp_url_searched := True\<rparr>) a') \<and>
          k \<notin> call_key ` set (fst (resolve_albums search' later)))"
proof -
  have settled: "(\<exists>a'. map_of (albums t') k = Some a' \<and> same_but_purchased b a') \<and>
      k \<notin> call_key ` set (fst (resolve_albums srch t')) \<and>
      map_of (albums (final_state (snd (resolve_albums srch t')))) k = map_of (albums t') k"
    if "reachable t" and "map_of (albums t) k = Some b" and "bandcamp_url_searched b"
      and "evolves t t'" for t t' b srch
  proof -
    from that(1) have wf: "well_formed t" by (rule reachable_well_formed)
    from evolves_keeps_searched [OF that(4) wf that(2,3)]
    obtain a' where a': "map_of (albums t') k = Some a'" "same_but_purchased b a'" by blast
    from a'(2) that(3) have "bandcamp_url_searched a'"
      unfolding same_but_purchased_def by (cases b; cases a') auto
    moreover from that(4) wf have "well_formed t'" by (rule evolves_well_formed)
    ultimately have "map_of (albums (final_state (snd (resolve_albums srch t')))) k = Some a' \<and>
        k \<notin> call_key ` set (fst (resolve_albums srch t'))"
      using search_albums_skips [of t' k a' srch 0 "map fst (albums t')"] a'(1)
      by (simp add: resolve_albums_def)
    with a' show ?thesis by auto
  qed
  let ?s1 = "final_state (snd (resolve_albums search s))"
  let ?a1 = "a\<lparr>bandcamp_url_searched := True\<rparr>"
  from assms(1) have wf: "well_formed s" by (rule reachable_well_formed)
  have second: "\<not> bandcamp_url_searched a \<and> \<not> bandcamp_url_found a \<and> bandcamp_url a = [] \<and>
      map_of (albums ?s1) k = Some ?a1 \<and>
      (\<exists>a'. map_of (albums later) k = Some a' \<and> same_but_purchased ?a1 a') \<and>
      k \<notin> call_key ` set (fst (resolve_albums search' later))"
    if "call \<in> set (fst (resolve_albums search s))"
      and "call_key call = k" and "call_result call = Inr []"
      and "evolves ?s1 later" for call
  proof -
    from that(1) have "call \<in> set (fst (search_albums search 0 s (map fst (albums s))))"
      by (simp add: resolve_albums_def)
    from search_albums_records [OF wf assms(2) this that(2,3)]
    have unsearched: "\<not> bandcamp_url_searched a"
      and recorded: "map_of (albums ?s1) k = Some ?a1"
      by (simp_all add: resolve_albums_def record_search_def)
    from well_formedD(3) [OF wf assms(2)] unsearched
    have flags: "\<not> bandcamp_url_found a \<and> bandcamp_url a = []"
      by (simp add: album_ok_def)
    have "reachable ?s1"
      by (rule reachable_evolves [OF assms(1)]) (rule evolves.resolved [OF evolves.same])
    from settled [OF this recorded _ that(4), of search'] unsearched recorded flags
    show ?thesis by simp
  qed
  from settled [OF assms, of later search] second show ?thesis by blast
qed

theorem searched_album_is_final_witness:
  "reachable demo_resolved \<and>
   map_of (albums demo_resolved) ''X:1'' =
     Some (demo_album\<lparr>bandcamp_url_searched := True, bandcamp_url_found := True,
                      bandcamp_url := demo_url\<rparr>) \<and>
   evolves demo_resolved demo_reconciled \<and>
   fst (resolve_albums demo_search demo_reconciled) = [] \<and>
   map_of (albums (final_state (snd (resolve_albums demo_search demo_reconciled)))) ''X:1'' =
     map_of (albums demo_reconciled) ''X:1'' \<and>
   reachable demo_imported \<and>
   map_of (albums demo_imported) ''X:1'' = Some demo_album \<and>
   fst (resolve_albums empty_search demo_imported) =
     [\<lparr>call_key = ''X:1'', call_artist = ''A'', call_album = ''X'', call_result = Inr []\<rparr>] \<and>
   final_state (snd (resolve_albums empty_search demo_imported)) = demo_unlisted \<and>
   evolves demo_unlisted demo_unlisted \<and>
   \<not> bandcamp_url_searched demo_album \<and>
   \<not> bandcamp_url_found demo_album \<and> bandcamp_url demo_album = [] \<and>
   map_of (albums demo_unlisted) ''X:1'' = Some (demo_album\<lparr>bandcamp_url_searched := True\<rparr>) \<and>
   ''X:1'' \<notin> call_key ` set (fst (resolve_albums demo_search demo_unlisted))"
proof -
  have found: "map_of (albums demo_resolved) ''X:1'' =
     Some (demo_album\<lparr>bandcamp_url_searched := True, bandcamp_url_found := True,
                      bandcamp_url := demo_url\<rparr>)"
    by (simp add: demo_resolved_def)
  have unsearched: "map_of (albums demo_imported) ''X:1'' = Some demo_album"
    by (simp add: demo_imported_def)
  have later: "evolves demo_resolved demo_reconciled"
    using evolves.reconciled [OF evolves.same, of demo_resolved "[demo_url]"]
    by (simp add: refresh_demo_resolved)
  have stay: "evolves demo_unlisted demo_unlisted" by (rule evolves.same)
  note a = searched_album_is_final [OF reachable_demo_resolved found,
      of demo_reconciled demo_search demo_search]
  note b = searched_album_is_final [OF reachable_demo_imported unsearched,
      of demo_unlisted empty_search demo_search]
  from a b reachable_demo_resolved reachable_demo_imported found unsearched later stay
  show ?thesis
    by (simp add: resolve_empty_demo_imported resolve_demo_reconciled)
qed

section \<open>Properties of the search and of the credentials\<close>

lemma parse_https_link:
  "urlparse_ascii ''https://artist.bandcamp.com/album/x?from=search'' =
     Inr \<lparr>scheme = ''https'', netloc = ''artist.bandcamp.com'', path = ''/album/x'',
          params = [], query = ''from=search'', fragment = []\<rparr>"
  by code_simp

lemma parse_http_link:
  "urlparse_ascii ''http://artist.bandcamp.com/album/x?from=search'' =
     Inr \<lparr>scheme = ''http'', netloc = ''artist.bandcamp.com'', path = ''/album/x'',
          params = [], query = ''from=search'', fragment = []\<rparr>"
  by code_simp

lemma pull_without_bandcamp_variables:
  "pull_spotify_playlist
     (demo_runtime spotify_variables ''https://artist.bandcamp.com/album/x?from=search'')
     new_state ''https://open.spotify.com/playlist/PL1?si=abc'' =
   ([Token_request ''id:secret'', Playlist_request ''token'' ''PL1'', Print_registered 1,
     Search_request ''A X''],
    Inl (KeyError, demo_resolved))"
  by code_simp

lemma pull_without_variables:
  "pull_spotify_playlist
     (demo_runtime [] ''https://artist.bandcamp.com/album/x?from=search'')
     new_state ''https://open.spotify.com/playlist/PL1?si=abc'' =
   ([], Inl (KeyError, new_state))"
  by code_simp

lemma pull_with_all_variables:
  "pull_spotify_playlist
     (demo_runtime (spotify_variables @ bandcamp_variables)
        ''https://artist.bandcamp.com/album/x?from=search'')
     new_state ''https://open.spotify.com/playlist/PL1?si=abc'' =
   ([Token_request ''id:secret'', Playlist_request ''token'' ''PL1'', Print_registered 1,
     Search_request ''A X'', Purchases_request ''user'' ''cookie'', Print_new_purchases 1],
    Inr (demo_reconciled, 1))"
  by code_simp

lemma spotify_variable_missing:
  assumes "environ w ''SPOTIFY_APP_ID'' = None \<or> environ w ''SPOTIFY_APP_SECRET'' = None"
  shows "pull_spotify_playlist w s playlist_url = ([], Inl (KeyError, s))"
proof -
  from assms have "get_spotify_auth_token w = ([], Inl KeyError)"
    by (auto simp: get_spotify_auth_token_def split: option.splits)
  then show ?thesis by (simp add: pull_spotify_playlist_def)
qed

lemma bandcamp_variable_missing:
  assumes "environ w ''BANDCAMP_USERNAME'' = None \<or> environ w ''BANDCAMP_TOKEN'' = None"
  shows "fetch_and_refresh_purchased w s = ([], Inl (KeyError, s))"
proof -
  from assms have "get_bandcamp_purchases w = ([], Inl KeyError)"
    by (auto simp: get_bandcamp_purchases_def split: option.splits)
  then show ?thesis by (simp add: fetch_and_refresh_purchased_def)
qed

lemma search_request_no_purchases: "Purchases_request u t \<notin> search_request ` set calls"
  by (auto simp: search_request_def)

lemma pull_after_token_request:
  assumes "environ w ''SPOTIFY_APP_ID'' = Some app_id"
    and "environ w ''SPOTIFY_APP_SECRET'' = Some app_secret"
    and "environ w ''BANDCAMP_USERNAME'' = None \<or> environ w ''BANDCAMP_TOKEN'' = None"
  shows "\<exists>sent failure.
      pull_spotify_playlist w s playlist_url =
        (Token_request (app_id @ '':'' @ app_secret) # sent, Inl failure) \<and>
      (\<forall>u t. Purchases_request u t \<notin> set sent)"
proof -
  from assms(1,2) have token: "get_spotify_auth_token w =
      ([Token_request (app_id @ '':'' @ app_secret)],
       token_endpoint w (app_id @ '':'' @ app_secret))"
    by (simp add: get_spotify_auth_token_def)
  have refresh: "fetch_and_refresh_purchased w s2 = ([], Inl (KeyError, s2))" for s2
    using assms(3) by (rule bandcamp_variable_missing)
  show ?thesis
    unfolding pull_spotify_playlist_def token
    by (auto simp: get_spotify_playlist_def refresh search_request_no_purchases
        split: sum.splits prod.splits)
qed

text \<open>
  Claim C5, as the code has it. When the search page has at least one result and the
  first result has a link, the URL that is stored is the text \<^verbatim>\<open>https://\<close> followed by
  the network location and the path of that link, as \<^verbatim>\<open>urlparse\<close> splits it: query
  string, parameters and fragment are dropped, and the scheme of the link is not
  kept, the stored URL always starts with \<^verbatim>\<open>https://\<close>. The link
  \<^verbatim>\<open>https://artist.bandcamp.com/album/x?from=search\<close> is stored as
  \<^verbatim>\<open>https://artist.bandcamp.com/album/x\<close>.
\<close>

theorem stored_url_of_first_result:
  assumes "search_page w i (artist @ '' '' @ album) = Inr ((href # anchors) # results)"
    and "urlparse w href = Inr link"
  shows "search_bandcamp_album_url w i artist album =
           Inr (''https://'' @ netloc link @ path link) \<and>
         bandcamp_url (record_search a (''https://'' @ netloc link @ path link)) =
           ''https://'' @ netloc link @ path link \<and>
         bandcamp_url_found (record_search a (''https://'' @ netloc link @ path link))"
  using assms
  by (simp add: search_bandcamp_album_url_def first_result_url_def record_search_def)

theorem stored_url_of_first_result_witness:
  "search_page (demo_runtime [] ''https://artist.bandcamp.com/album/x?from=search'') 0
       (''A'' @ '' '' @ ''X'') =
     Inr ((''https://artist.bandcamp.com/album/x?from=search'' # [''/other'']) # [[]]) \<and>
   urlparse (demo_runtime [] ''https://artist.bandcamp.com/album/x?from=search'')
       ''https://artist.bandcamp.com/album/x?from=search'' =
     Inr \<lparr>scheme = ''https'', netloc = ''artist.bandcamp.com'', path = ''/album/x'',
          params = [], query = ''from=search'', fragment = []\<rparr> \<and>
   search_bandcamp_album_url (demo_runtime [] ''https://artist.bandcamp.com/album/x?from=search'')
       0 ''A'' ''X'' =
     Inr ''https://artist.bandcamp.com/album/x'' \<and>
   bandcamp_url (record_search demo_album ''https://artist.bandcamp.com/album/x'') =
     ''https://artist.bandcamp.com/album/x''"
proof -
  let ?w = "demo_runtime [] ''https://artist.bandcamp.com/album/x?from=search''"
  have page: "search_page ?w 0 (''A'' @ '' '' @ ''X'') =
      Inr ((''https://artist.bandcamp.com/album/x?from=search'' # [''/other'']) # [[]])"
    by (simp add: demo_runtime_def)
  have parsed: "urlparse ?w ''https://artist.bandcamp.com/album/x?from=search'' =
      Inr \<lparr>scheme = ''https'', netloc = ''artist.bandcamp.com'', path = ''/album/x'',
           params = [], query = ''from=search'', fragment = []\<rparr>"
    by (simp add: demo_runtime_def parse_https_link)
  from stored_url_of_first_result [OF page parsed, of demo_album] page parsed
  show ?thesis by simp
qed

text \<open>
  The claim as the specification words it, keeping the scheme, fails for a link
  with the scheme \<^verbatim>\<open>http\<close>: the stored URL starts with \<^verbatim>\<open>https://\<close>.
\<close>

theorem stored_url_scheme_counterexample:
  "search_bandcamp_album_url (demo_runtime [] ''http://artist.bandcamp.com/album/x?from=search'')
       0 ''A'' ''X'' =
     Inr ''https://artist.bandcamp.com/album/x'' \<and>
   map_sum id keep_scheme_host_path
       (urlparse (demo_runtime [] ''http://artist.bandcamp.com/album/x?from=search'')
          ''http://artist.bandcamp.com/album/x?from=search'') =
     Inr ''http://artist.bandcamp.com/album/x'' \<and>
   search_bandcamp_album_url (demo_runtime [] ''http://artist.bandcamp.com/album/x?from=search'')
       0 ''A'' ''X'' \<noteq>
     map_sum id keep_scheme_host_path
       (urlparse (demo_runtime [] ''http://artist.bandcamp.com/album/x?from=search'')
          ''http://artist.bandcamp.com/album/x?from=search'')"
  by (simp add: search_bandcamp_album_url_def first_result_url_def demo_runtime_def
      parse_http_link keep_scheme_host_path_def)

text \<open>
  Claim C8, as the code has it. No variable is checked when the program starts; each
  is read where it is used, and reading a variable that is not set raises
  \<^verbatim>\<open>KeyError\<close> before the request that needs it is sent. Without
  \<^verbatim>\<open>SPOTIFY_APP_ID\<close> or \<^verbatim>\<open>SPOTIFY_APP_SECRET\<close>, \<^verbatim>\<open>pull_spotify_playlist\<close> raises before it
  sends anything and leaves the state as it was. Without \<^verbatim>\<open>BANDCAMP_USERNAME\<close> or
  \<^verbatim>\<open>BANDCAMP_TOKEN\<close>, fetching the purchases raises before its request is sent; in
  \<^verbatim>\<open>pull_spotify_playlist\<close> with both Spotify variables set, that is after the token
  request to Spotify has been sent: the run sends it first, never sends the request
  for the purchases, and fails.
\<close>

theorem missing_variable_raises_at_first_read:
  "(environ w ''SPOTIFY_APP_ID'' = None \<or> environ w ''SPOTIFY_APP_SECRET'' = None \<longrightarrow>
      pull_spotify_playlist w s playlist_url = ([], Inl (KeyError, s))) \<and>
   (environ w ''BANDCAMP_USERNAME'' = None \<or> environ w ''BANDCAMP_TOKEN'' = None \<longrightarrow>
      fetch_and_refresh_purchased w s = ([], Inl (KeyError, s)) \<and>
      (\<forall>app_id app_secret.
         environ w ''SPOTIFY_APP_ID'' = Some app_id \<and>
         environ w ''SPOTIFY_APP_SECRET'' = Some app_secret \<longrightarrow>
           (\<exists>sent failure.
              pull_spotify_playlist w s playlist_url =
                (Token_request (app_id @ '':'' @ app_secret) # sent, Inl failure) \<and>
              (\<forall>u t. Purchases_request u t \<notin> set sent))))"
  using spotify_variable_missing [of w s playlist_url]
    bandcamp_variable_missing [of w s]
    pull_after_token_request [of w _ _ s playlist_url]
  by blast

theorem missing_variable_raises_at_first_read_witness:
  "environ (demo_runtime [] ''https://artist.bandcamp.com/album/x?from=search'')
     ''SPOTIFY_APP_ID'' = None \<and>
   pull_spotify_playlist (demo_runtime [] ''https://artist.bandcamp.com/album/x?from=search'')
     new_state ''https://open.spotify.com/playlist/PL1?si=abc'' = ([], Inl (KeyError, new_state)) \<and>
   environ (demo_runtime spotify_variables ''https://artist.bandcamp.com/album/x?from=search'')
     ''BANDCAMP_USERNAME'' = None \<and>
   environ (demo_runtime spotify_variables ''https://artist.bandcamp.com/album/x?from=search'')
     ''SPOTIFY_APP_ID'' = Some ''id'' \<and>
   environ (demo_runtime spotify_variables ''https://artist.bandcamp.com/album/x?from=search'')
     ''SPOTIFY_APP_SECRET'' = Some ''secret'' \<and>
   fetch_and_refresh_purchased
     (demo_runtime spotify_variables ''https://artist.bandcamp.com/album/x?from=search'')
     new_state = ([], Inl (KeyError, new_state)) \<and>
   (\<exists>sent failure.
      pull_spotify_playlist
        (demo_runtime spotify_variables ''https://artist.bandcamp.com/album/x?from=search'')
        new_state ''https://open.spotify.com/playlist/PL1?si=abc'' =
      (Token_request (''id'' @ '':'' @ ''secret'') # sent, Inl failure) \<and>
      (\<forall>u t. Purchases_request u t \<notin> set sent))"
proof -
  let ?none = "demo_runtime [] ''https://artist.bandcamp.com/album/x?from=search''"
  let ?half = "demo_runtime spotify_variables ''https://artist.bandcamp.com/album/x?from=search''"
  have unset: "environ ?none ''SPOTIFY_APP_ID'' = None"
    by (simp add: demo_runtime_def)
  have half: "environ ?half ''BANDCAMP_USERNAME'' = None"
    "environ ?half ''SPOTIFY_APP_ID'' = Some ''id''"
    "environ ?half ''SPOTIFY_APP_SECRET'' = Some ''secret''"
    by (simp_all add: demo_runtime_def spotify_variables_def)
  note a = missing_variable_raises_at_first_read
    [of ?none new_state "''https://open.spotify.com/playlist/PL1?si=abc''"]
  note b = missing_variable_raises_at_first_read
    [of ?half new_state "''https://open.spotify.com/playlist/PL1?si=abc''"]
  from a unset have first: "pull_spotify_playlist ?none new_state
      ''https://open.spotify.com/playlist/PL1?si=abc'' = ([], Inl (KeyError, new_state))"
    by blast
  from b half have second: "fetch_and_refresh_purchased ?half new_state =
        ([], Inl (KeyError, new_state)) \<and>
      (\<exists>sent failure.
        pull_spotify_playlist ?half new_state ''https://open.spotify.com/playlist/PL1?si=abc'' =
        (Token_request (''id'' @ '':'' @ ''secret'') # sent, Inl failure) \<and>
        (\<forall>u t. Purchases_request u t \<notin> set sent))"
    by blast
  from unset half first second show ?thesis by blast
qed

text \<open>
  The claim as the specification words it, a failure before any authentication is
  attempted, fails for a run that has the Spotify variables and lacks
  \<^verbatim>\<open>BANDCAMP_USERNAME\<close>: the token request, the playlist request and the search are
  sent before the \<^verbatim>\<open>KeyError\<close>.
\<close>

theorem missing_variable_counterexample:
  "''BANDCAMP_USERNAME'' \<in> set required_variables \<and>
   environ (demo_runtime spotify_variables ''https://artist.bandcamp.com/album/x?from=search'')
     ''BANDCAMP_USERNAME'' = None \<and>
   pull_spotify_playlist
     (demo_runtime spotify_variables ''https://artist.bandcamp.com/album/x?from=search'')
     new_state ''https://open.spotify.com/playlist/PL1?si=abc'' =
   ([Token_request ''id:secret'', Playlist_request ''token'' ''PL1'', Print_registered 1,
     Search_request ''A X''],
    Inl (KeyError, demo_resolved)) \<and>
   \<not> fails_before_any_request
     (pull_spotify_playlist
        (demo_runtime spotify_variables ''https://artist.bandcamp.com/album/x?from=search'')
        new_state ''https://open.spotify.com/playlist/PL1?si=abc'')"
proof -
  have required: "''BANDCAMP_USERNAME'' \<in> set required_variables"
    by (simp add: required_variables_def)
  have unset: "environ
      (demo_runtime spotify_variables ''https://artist.bandcamp.com/album/x?from=search'')
      ''BANDCAMP_USERNAME'' = None"
    by (simp add: demo_runtime_def spotify_variables_def)
  from required unset show ?thesis
    by (simp add: pull_without_bandcamp_variables fails_before_any_request_def)
qed

section \<open>Properties of the reports\<close>

text \<open>
  Claim C4. \<^verbatim>\<open>print_stats\<close> on a state without albums: the four counts are printed,
  all zero, and line 178 raises \<^verbatim>\<open>ZeroDivisionError\<close>; no percentage is printed.
\<close>

theorem print_stats_no_albums:
  "print_stats \<lparr>albums = [], bandcamp_url_to_album_key = index\<rparr> =
     ([Albums_registered 0, Albums_purchased 0, Albums_found 0 0, Albums_unsearched 0],
      Inl ZeroDivisionError)"
  by (simp add: print_stats_def)

end
